theory Spec2Isabelle
  imports Main "HOL-Library.Sublist"
begin

section \<open>Errors and results\<close>

text \<open>
  A thrown JavaScript \<^verbatim>\<open>Error\<close> is a value carrying its message; every value thrown
  is taken to be such an object, as the \<^verbatim>\<open>catch\<close> block of the deploy command does when
  it reads \<^verbatim>\<open>error.message\<close>. \<open>Unmodelled\<close> marks a run that leaves the fragment of
  the platform this development describes (for instance a regular expression with syntax
  beyond the one \<^verbatim>\<open>matchesPattern\<close> builds from plain patterns); nothing is stated
  about such a run.
\<close>

datatype error = Error string | Unmodelled string

type_synonym 'a result = "error + 'a"

section \<open>utils/fileScanner.js\<close>

subsection \<open>The regular expressions built by matchesPattern\<close>

text \<open>
  Strings are lists of 8-bit characters: the development covers names whose UTF-16 code
  units are below 256. The source of the regular expression is
  \<^verbatim>\<open>'^' + pattern.replace(/\*/g, '.*') + '$'\<close>. The fragment of the ECMAScript pattern
  syntax modelled here has three atoms: a pattern character standing for itself, the dot
  (any character but a line terminator, as no \<^verbatim>\<open>s\<close> flag is given) and the dot
  under a star. Every other use of a syntax character is outside the fragment.
\<close>

definition replace_stars :: "string \<Rightarrow> string" where
  "replace_stars pattern = concat (map (\<lambda>c. if c = CHR ''*'' then ''.*'' else [c]) pattern)"

datatype rx_atom = RxChar char | RxAny | RxAnyStar

definition syntax_character :: "char \<Rightarrow> bool" where
  "syntax_character c \<longleftrightarrow>
     c \<in> {CHR ''^'', CHR ''$'', CHR 0x5C, CHR ''.'', CHR ''*'', CHR ''+'', CHR ''?'',
          CHR ''('', CHR '')'', CHR ''['', CHR '']'', CHR ''{'', CHR ''}'', CHR ''|''}"

definition line_terminator :: "char \<Rightarrow> bool" where
  "line_terminator c \<longleftrightarrow> c = CHR 0x0A \<or> c = CHR 0x0D"

fun parse_atoms :: "string \<Rightarrow> rx_atom list option" where
  "parse_atoms [] = Some []"
| "parse_atoms [c] =
     (if c = CHR ''.'' then Some [RxAny]
      else if syntax_character c then None
      else Some [RxChar c])"
| "parse_atoms (c # d # cs) =
     (if c = CHR ''.'' \<and> d = CHR ''*'' then map_option (Cons RxAnyStar) (parse_atoms cs)
      else if c = CHR ''.'' then map_option (Cons RxAny) (parse_atoms (d # cs))
      else if syntax_character c then None
      else map_option (Cons (RxChar c)) (parse_atoms (d # cs)))"

text \<open>
  \<^verbatim>\<open>new RegExp(source)\<close> for a source of the shape \<^verbatim>\<open>^atoms$\<close>: the value is the atom
  list, anchored at both ends.
\<close>

definition RegExp :: "string \<Rightarrow> rx_atom list result" where
  "RegExp source =
     (case source of
        [] \<Rightarrow> Inl (Unmodelled source)
      | c # rest \<Rightarrow>
          if c = CHR ''^'' \<and> rest \<noteq> [] \<and> last rest = CHR ''$''
          then (case parse_atoms (butlast rest) of
                  None \<Rightarrow> Inl (Unmodelled source)
                | Some atoms \<Rightarrow> Inr atoms)
          else Inl (Unmodelled source))"

text \<open>\<^verbatim>\<open>regex.test(filename)\<close> for an anchored atom list: is there a match of the whole name.\<close>

fun regexp_test :: "rx_atom list \<Rightarrow> string \<Rightarrow> bool" where
  "regexp_test [] s \<longleftrightarrow> s = []"
| "regexp_test (RxChar c # r) s \<longleftrightarrow>
     (case s of [] \<Rightarrow> False | x # xs \<Rightarrow> x = c \<and> regexp_test r xs)"
| "regexp_test (RxAny # r) s \<longleftrightarrow>
     (case s of [] \<Rightarrow> False | x # xs \<Rightarrow> \<not> line_terminator x \<and> regexp_test r xs)"
| "regexp_test (RxAnyStar # r) s \<longleftrightarrow>
     regexp_test r s \<or>
     (case s of [] \<Rightarrow> False | x # xs \<Rightarrow> \<not> line_terminator x \<and> regexp_test (RxAnyStar # r) xs)"

subsection \<open>matchesPattern\<close>

text \<open>The arrow function given to \<^verbatim>\<open>patterns.some\<close>.\<close>

definition pattern_matches :: "string \<Rightarrow> string \<Rightarrow> bool result" where
  "pattern_matches filename pattern =
     (if CHR ''*'' \<in> set pattern
      then (case RegExp (''^'' @ replace_stars pattern @ ''$'') of
              Inl e \<Rightarrow> Inl e
            | Inr regex \<Rightarrow> Inr (regexp_test regex filename))
      else Inr (filename = pattern))"

text \<open>\<^verbatim>\<open>Array.prototype.some\<close> stops at the first pattern that matches.\<close>

fun matchesPattern :: "string \<Rightarrow> string list \<Rightarrow> bool result" where
  "matchesPattern filename [] = Inr False"
| "matchesPattern filename (pattern # patterns) =
     (case pattern_matches filename pattern of
        Inl e \<Rightarrow> Inl e
      | Inr True \<Rightarrow> Inr True
      | Inr False \<Rightarrow> matchesPattern filename patterns)"

subsection \<open>The glob of the specification\<close>

text \<open>
  The matcher as the specification words it: every character but the star stands for
  itself, the star matches zero or more of any character, and the whole name must match.
\<close>

fun glob_match :: "string \<Rightarrow> string \<Rightarrow> bool" where
  "glob_match [] s \<longleftrightarrow> s = []"
| "glob_match (p # ps) s \<longleftrightarrow>
     (if p = CHR ''*''
      then glob_match ps s \<or> (case s of [] \<Rightarrow> False | x # xs \<Rightarrow> glob_match (p # ps) xs)
      else (case s of [] \<Rightarrow> False | x # xs \<Rightarrow> x = p \<and> glob_match ps xs))"

text \<open>
  Two classes of patterns. In a \<open>glob_safe\<close> pattern the star is the only syntax character
  of regular expressions, so escaping would change nothing. A \<open>modelled_pattern\<close> is one
  the model of the regular expressions covers: a pattern without a star, which is compared
  as it is, or one whose only syntax characters are the star and the dot; the shipped
  patterns \<^verbatim>\<open>*.log\<close>, \<^verbatim>\<open>*.tmp\<close>, \<^verbatim>\<open>*.bak\<close>, \<^verbatim>\<open>*.swp\<close> and \<^verbatim>\<open>*~\<close> are of this
  kind. For any other pattern the model answers \<open>Unmodelled\<close>, where the source compiles
  some other regular expression or throws a \<^verbatim>\<open>SyntaxError\<close>.
\<close>

definition glob_safe :: "string \<Rightarrow> bool" where
  "glob_safe pattern \<longleftrightarrow> (\<forall>c \<in> set pattern. c = CHR ''*'' \<or> \<not> syntax_character c)"

definition modelled_pattern :: "string \<Rightarrow> bool" where
  "modelled_pattern pattern \<longleftrightarrow>
     CHR ''*'' \<notin> set pattern \<or>
     (\<forall>c \<in> set pattern. c = CHR ''*'' \<or> c = CHR ''.'' \<or> \<not> syntax_character c)"

text \<open>The atom list that the regular expression of such a pattern has.\<close>

definition pattern_atoms :: "string \<Rightarrow> rx_atom list" where
  "pattern_atoms pattern =
     map (\<lambda>c. if c = CHR ''*'' then RxAnyStar else if c = CHR ''.'' then RxAny else RxChar c)
       pattern"

subsection \<open>Paths\<close>

text \<open>
  \<^verbatim>\<open>String.prototype.split('/')\<close> and \<^verbatim>\<open>Array.prototype.join('/')\<close>. Splitting the empty
  string gives one empty segment.
\<close>

fun split_slash :: "string \<Rightarrow> string list" where
  "split_slash [] = [[]]"
| "split_slash (c # cs) =
     (if c = CHR ''/'' then [] # split_slash cs
      else (case split_slash cs of [] \<Rightarrow> [[c]] | w # ws \<Rightarrow> (c # w) # ws))"

fun join_slash :: "string list \<Rightarrow> string" where
  "join_slash [] = []"
| "join_slash [w] = w"
| "join_slash (w # v # ws) = w @ ''/'' @ join_slash (v # ws)"

text \<open>
  \<^verbatim>\<open>path.dirname\<close> of Node.js on a POSIX host. The library scans the path from its last
  character down to index 1 for the first slash that follows a character other than a
  slash; \<open>matchedSlash\<close> is true while only trailing slashes have been seen.
\<close>

fun dirname_scan :: "string \<Rightarrow> nat \<Rightarrow> bool \<Rightarrow> nat option" where
  "dirname_scan path 0 matchedSlash = None"
| "dirname_scan path (Suc i) matchedSlash =
     (if path ! Suc i = CHR ''/''
      then (if \<not> matchedSlash then Some (Suc i) else dirname_scan path i matchedSlash)
      else dirname_scan path i False)"

definition dirname :: "string \<Rightarrow> string" where
  "dirname path =
     (if path = [] then ''.''
      else let hasRoot = (hd path = CHR ''/'') in
        case dirname_scan path (length path - 1) True of
          None \<Rightarrow> if hasRoot then ''/'' else ''.''
        | Some end \<Rightarrow> if hasRoot \<and> end = 1 then ''//'' else take end path)"

subsection \<open>getRemoteDirectories\<close>

record file_mapping =
  local :: string
  remote :: string

text \<open>
  A JavaScript \<^verbatim>\<open>Set\<close> of strings keeps its members in insertion order, which is the
  order \<^verbatim>\<open>Array.from\<close> reads them in: a list without repetition, \<^verbatim>\<open>add\<close> appending
  a new member at the end.
\<close>

definition set_add :: "'a list \<Rightarrow> 'a \<Rightarrow> 'a list" where
  "set_add s x = (if x \<in> set s then s else s @ [x])"

text \<open>The inner loop over the segments of one directory, \<open>current\<close> being the prefix so far.\<close>

fun add_prefixes :: "string \<Rightarrow> string list \<Rightarrow> string list \<Rightarrow> string list" where
  "add_prefixes current [] dirs = dirs"
| "add_prefixes current (part # parts) dirs =
     (let current' = (if current \<noteq> [] then current @ ''/'' @ part else part)
      in add_prefixes current' parts (set_add dirs current'))"

text \<open>The outer loop over the file mappings.\<close>

fun collect_dirs :: "file_mapping list \<Rightarrow> string list \<Rightarrow> string list" where
  "collect_dirs [] dirs = dirs"
| "collect_dirs (file # files) dirs =
     (let dir = dirname (remote file) in
      if dir \<noteq> [] \<and> dir \<noteq> ''.''
      then collect_dirs files (add_prefixes [] (split_slash dir) dirs)
      else collect_dirs files dirs)"

definition depth :: "string \<Rightarrow> nat" where
  "depth a = length (split_slash a)"

text \<open>
  \<^verbatim>\<open>Array.prototype.sort\<close> is stable, and the comparator orders by the difference of the
  depths: a stable sort on the key \<open>depth\<close>.
\<close>

definition getRemoteDirectories :: "file_mapping list \<Rightarrow> string list" where
  "getRemoteDirectories files = sort_key depth (collect_dirs files [])"

text \<open>
  The vocabulary of the claims about the plan: \<open>d1\<close> is an ancestor of \<open>d2\<close> when
  \<open>d2\<close> continues \<open>d1\<close> with a slash, and a remote path is relative when it does not
  start with a slash.
\<close>

definition is_ancestor :: "string \<Rightarrow> string \<Rightarrow> bool" where
  "is_ancestor d1 d2 \<longleftrightarrow> prefix (d1 @ ''/'') d2"

definition is_relative :: "string \<Rightarrow> bool" where
  "is_relative path \<longleftrightarrow> (case path of [] \<Rightarrow> True | c # _ \<Rightarrow> c \<noteq> CHR ''/'')"

subsection \<open>The local file tree\<close>

text \<open>
  What \<^verbatim>\<open>fs.statSync\<close> and \<^verbatim>\<open>fs.readdirSync\<close> see below the scanned directory, links
  followed: a regular file, a directory with its entries in listing order, a directory
  whose listing fails, or an entry whose \<^verbatim>\<open>stat\<close> fails (a dangling link). The tree is
  finite, so links that lead back to an ancestor are not covered.
\<close>

datatype fs_node =
    File
  | Directory "(string \<times> fs_node) list"
  | Unreadable error
  | Broken error

fun statSync_isDirectory :: "fs_node \<Rightarrow> bool result" where
  "statSync_isDirectory File = Inr False"
| "statSync_isDirectory (Directory items) = Inr True"
| "statSync_isDirectory (Unreadable e) = Inr True"
| "statSync_isDirectory (Broken e) = Inl e"

text \<open>
  \<^verbatim>\<open>path.join(dir, item)\<close> for a normalised directory path other than the root and an
  entry name, and \<^verbatim>\<open>path.relative(baseDir, fullPath)\<close> for a path below \<open>baseDir\<close>;
  other arguments are outside the model.
\<close>

definition path_join :: "string \<Rightarrow> string \<Rightarrow> string" where
  "path_join dir item = dir @ ''/'' @ item"

definition path_relative :: "string \<Rightarrow> string \<Rightarrow> string result" where
  "path_relative from to =
     (if prefix (from @ ''/'') to then Inr (drop (length from + 1) to)
      else Inl (Unmodelled to))"

text \<open>\<^verbatim>\<open>relativePath.replace(/\\/g, '/')\<close>: every backslash becomes a slash.\<close>

definition to_forward_slashes :: "string \<Rightarrow> string" where
  "to_forward_slashes p = map (\<lambda>c. if c = CHR 0x5C then CHR ''/'' else c) p"

subsection \<open>scanDirectory\<close>

record exclude_config =
  excludeDirectories :: "string list"
  excludeFiles :: "string list"
  excludePatterns :: "string list"

text \<open>
  \<open>scanDirectory\<close> is given the node found at \<open>dir\<close>; \<open>scan_items\<close> is its loop over
  the listing, \<open>files\<close> being the array filled so far. A thrown error ends the scan.
\<close>

fun scanDirectory :: "fs_node \<Rightarrow> string \<Rightarrow> exclude_config \<Rightarrow> string \<Rightarrow> file_mapping list result"
  and scan_items ::
    "(string \<times> fs_node) list \<Rightarrow> string \<Rightarrow> exclude_config \<Rightarrow> string \<Rightarrow> file_mapping list
      \<Rightarrow> file_mapping list result"
where
  "scanDirectory (Directory items) dir excludeConfig baseDir =
     scan_items items dir excludeConfig baseDir []"
| "scanDirectory File dir excludeConfig baseDir =
     Inl (Error (''ENOTDIR: not a directory, scandir '' @ [CHR 0x27] @ dir @ [CHR 0x27]))"
| "scanDirectory (Unreadable e) dir excludeConfig baseDir = Inl e"
| "scanDirectory (Broken e) dir excludeConfig baseDir = Inl e"
| "scan_items [] dir excludeConfig baseDir files = Inr files"
| "scan_items ((item, node) # items) dir excludeConfig baseDir files =
     (let fullPath = path_join dir item in
      case path_relative baseDir fullPath of
        Inl e \<Rightarrow> Inl e
      | Inr relativePath \<Rightarrow>
          (case statSync_isDirectory node of
             Inl e \<Rightarrow> Inl e
           | Inr True \<Rightarrow>
               if item \<in> set (excludeDirectories excludeConfig)
               then scan_items items dir excludeConfig baseDir files
               else (case scanDirectory node fullPath excludeConfig baseDir of
                       Inl e \<Rightarrow> Inl e
                     | Inr subFiles \<Rightarrow>
                         scan_items items dir excludeConfig baseDir (files @ subFiles))
           | Inr False \<Rightarrow>
               if item \<in> set (excludeFiles excludeConfig)
               then scan_items items dir excludeConfig baseDir files
               else (case matchesPattern item (excludePatterns excludeConfig) of
                       Inl e \<Rightarrow> Inl e
                     | Inr True \<Rightarrow> scan_items items dir excludeConfig baseDir files
                     | Inr False \<Rightarrow>
                         scan_items items dir excludeConfig baseDir
                           (files @ [\<lparr>local = fullPath,
                                      remote = to_forward_slashes relativePath\<rparr>]))))"

text \<open>
  The segments \<open>p\<close> lead from a node to a regular file.
\<close>

primrec file_at :: "string list \<Rightarrow> fs_node \<Rightarrow> bool" where
  "file_at [] node \<longleftrightarrow> node = File"
| "file_at (name # p) node \<longleftrightarrow>
     (case node of
        Directory items \<Rightarrow> \<exists>entry \<in> set items. fst entry = name \<and> file_at p (snd entry)
      | _ \<Rightarrow> False)"

text \<open>
  Two readings of "the rules exclude this file name". \<open>matcher_excludes\<close> is the verdict
  of the two checks of the source, whatever \<^verbatim>\<open>matchesPattern\<close> makes of the patterns.
  \<open>spec_excludes\<close> is the specification's: the name is in \<open>excludeFiles\<close> or some
  pattern matches it as a glob.
\<close>

definition matcher_excludes :: "exclude_config \<Rightarrow> string \<Rightarrow> bool" where
  "matcher_excludes excludeConfig name \<longleftrightarrow>
     name \<in> set (excludeFiles excludeConfig) \<or>
     matchesPattern name (excludePatterns excludeConfig) = Inr True"

definition spec_excludes :: "exclude_config \<Rightarrow> string \<Rightarrow> bool" where
  "spec_excludes excludeConfig name \<longleftrightarrow>
     name \<in> set (excludeFiles excludeConfig) \<or>
     (\<exists>pattern \<in> set (excludePatterns excludeConfig). glob_match pattern name)"

text \<open>
  A path \<open>p\<close> below the scanned directory is kept when none of its directory segments
  is an excluded directory name and its last segment, the file name, is not excluded: by
  the checks of the source in \<open>kept_by_code\<close>, by the specification in
  \<open>kept_by_spec\<close>. \<open>mapping_of\<close> is the entry the scan makes for a path, \<open>below\<close>
  the local path of the directory reached through the segments \<open>ds\<close>.
\<close>

definition kept_by_code :: "exclude_config \<Rightarrow> string list \<Rightarrow> bool" where
  "kept_by_code excludeConfig p \<longleftrightarrow>
     p \<noteq> [] \<and> (\<forall>d \<in> set (butlast p). d \<notin> set (excludeDirectories excludeConfig)) \<and>
     \<not> matcher_excludes excludeConfig (last p)"

definition kept_by_spec :: "exclude_config \<Rightarrow> string list \<Rightarrow> bool" where
  "kept_by_spec excludeConfig p \<longleftrightarrow>
     p \<noteq> [] \<and> (\<forall>d \<in> set (butlast p). d \<notin> set (excludeDirectories excludeConfig)) \<and>
     \<not> spec_excludes excludeConfig (last p)"

definition mapping_of :: "string \<Rightarrow> string list \<Rightarrow> file_mapping" where
  "mapping_of baseDir p =
     \<lparr>local = baseDir @ ''/'' @ join_slash p, remote = to_forward_slashes (join_slash p)\<rparr>"

definition below :: "string \<Rightarrow> string list \<Rightarrow> string" where
  "below baseDir ds = baseDir @ concat (map ((@) ''/'') ds)"

text \<open>
  The entries expected of the subtree at a node reached through \<open>ds\<close>, and of the
  entries of a listing.
\<close>

definition found :: "exclude_config \<Rightarrow> string \<Rightarrow> string list \<Rightarrow> fs_node \<Rightarrow> file_mapping set" where
  "found cfg baseDir ds node =
     {mapping_of baseDir (ds @ p) | p. file_at p node \<and> kept_by_code cfg p}"

definition found_in ::
  "exclude_config \<Rightarrow> string \<Rightarrow> string list \<Rightarrow> (string \<times> fs_node) list \<Rightarrow> file_mapping set" where
  "found_in cfg baseDir ds items =
     (\<Union>entry \<in> set items.
        {mapping_of baseDir (ds @ fst entry # p) | p.
           file_at p (snd entry) \<and> kept_by_code cfg (fst entry # p)})"

text \<open>A tree in which every listing and every \<^verbatim>\<open>stat\<close> succeeds.\<close>

fun readable :: "fs_node \<Rightarrow> bool" where
  "readable File \<longleftrightarrow> True"
| "readable (Directory items) \<longleftrightarrow> (\<forall>entry \<in> set items. readable (snd entry))"
| "readable (Unreadable e) \<longleftrightarrow> False"
| "readable (Broken e) \<longleftrightarrow> False"

section \<open>utils/sshDeployer.js\<close>

subsection \<open>The session provider and the local key file\<close>

text \<open>
  The \<^verbatim>\<open>NodeSSH\<close> object of the node-ssh package is outside the repository. It is a
  parameter: a state \<open>'r\<close> of its own (the connection and the remote host) and four
  operations on it. A promise that rejects is \<open>Inl\<close>, one that resolves is \<open>Inr\<close>; the state
  may change either way. \<^verbatim>\<open>execCommand\<close> resolves with the output and the exit code of
  the command, whatever the code is, as \<^verbatim>\<open>executeScript\<close> and the deploy command rely on
  when they read \<^verbatim>\<open>stdout\<close> and \<^verbatim>\<open>code\<close>. \<^verbatim>\<open>dispose\<close> returns nothing and is
  taken not to throw.
\<close>

record ssh_config =
  cfg_host :: string
  cfg_username :: string
  cfg_privateKey :: "string option"
  cfg_password :: "string option"

record exec_result =
  stdout :: string
  stderr :: string
  code :: int

record 'r node_ssh =
  ssh_connect :: "ssh_config \<Rightarrow> 'r \<Rightarrow> unit result \<times> 'r"
  ssh_execCommand :: "string \<Rightarrow> string option \<Rightarrow> 'r \<Rightarrow> exec_result result \<times> 'r"
  ssh_putFile :: "string \<Rightarrow> string \<Rightarrow> 'r \<Rightarrow> unit result \<times> 'r"
  ssh_dispose :: "'r \<Rightarrow> 'r"

text \<open>
  What \<^verbatim>\<open>connect\<close> asks of the local machine: \<^verbatim>\<open>path.resolve(process.cwd(), p)\<close>,
  \<^verbatim>\<open>fs.existsSync\<close> and \<^verbatim>\<open>fs.readFileSync(p, 'utf8')\<close>, which may throw.
\<close>

record local_fs =
  resolve :: "string \<Rightarrow> string"
  existsSync :: "string \<Rightarrow> bool"
  readFileSync :: "string \<Rightarrow> string result"

text \<open>
  The connection section of the configuration. A field that is absent or empty is the
  empty string, the only falsy value among strings.
\<close>

record connection_config =
  host :: string
  username :: string
  password :: string
  privateKeyPath :: string
  targetDirectory :: string

subsection \<open>The deployer and the record of what it did\<close>

text \<open>
  Beside the two fields of the class, the state keeps a log: every call of an operation of
  the provider with its arguments, every call of a progress callback, and every call the
  deploy command makes of a method of the deployer. The log is written only; no decision
  reads it.
\<close>

datatype deployer_call =
  MConnect | MGetServerInfo | MCreateDirectories | MUploadFiles | MExecuteScript | MDisconnect

datatype event =
    ConnectAttempt ssh_config
  | Exec string "string option"
  | Put string string
  | Disposed
  | DirProgress string
  | FileProgress nat nat string
  | Invoke deployer_call

record 'r deployer =
  ssh :: 'r
  connected :: bool
  trace :: "event list"

definition new_SSHDeployer :: "'r \<Rightarrow> 'r deployer" where
  "new_SSHDeployer fresh = \<lparr>ssh = fresh, connected = False, trace = []\<rparr>"

definition log :: "event \<Rightarrow> 'r deployer \<Rightarrow> 'r deployer" where
  "log ev s = s\<lparr>trace := trace s @ [ev]\<rparr>"

subsection \<open>connect and disconnect\<close>

text \<open>\<^verbatim>\<open>await this.ssh.connect(config); this.connected = true\<close>.\<close>

definition open_session :: "'r node_ssh \<Rightarrow> ssh_config \<Rightarrow> 'r deployer \<Rightarrow> unit result \<times> 'r deployer" where
  "open_session P config s =
     (case ssh_connect P config (ssh s) of
        (Inl e, r) \<Rightarrow> (Inl e, (log (ConnectAttempt config) s)\<lparr>ssh := r\<rparr>)
      | (Inr u, r) \<Rightarrow> (Inr (), (log (ConnectAttempt config) s)\<lparr>ssh := r, connected := True\<rparr>))"

definition connect ::
  "'r node_ssh \<Rightarrow> local_fs \<Rightarrow> connection_config \<Rightarrow> 'r deployer \<Rightarrow> unit result \<times> 'r deployer" where
  "connect P fs connectionConfig s =
     (if privateKeyPath connectionConfig \<noteq> []
      then
        (let keyPath = resolve fs (privateKeyPath connectionConfig) in
         if \<not> existsSync fs keyPath
         then (Inl (Error (''Private key file not found: '' @ keyPath)), s)
         else (case readFileSync fs keyPath of
                 Inl e \<Rightarrow> (Inl e, s)
               | Inr key \<Rightarrow>
                   open_session P
                     \<lparr>cfg_host = host connectionConfig, cfg_username = username connectionConfig,
                      cfg_privateKey = Some key, cfg_password = None\<rparr> s))
      else if password connectionConfig \<noteq> []
      then open_session P
             \<lparr>cfg_host = host connectionConfig, cfg_username = username connectionConfig,
              cfg_privateKey = None, cfg_password = Some (password connectionConfig)\<rparr> s
      else (Inl (Error ''No authentication method provided (password or private key)''), s))"

definition disconnect :: "'r node_ssh \<Rightarrow> 'r deployer \<Rightarrow> 'r deployer" where
  "disconnect P s =
     (if connected s
      then (log Disposed s)\<lparr>ssh := ssh_dispose P (ssh s), connected := False\<rparr>
      else s)"

subsection \<open>createDirectories and uploadFiles\<close>

definition quoted :: "string \<Rightarrow> string" where
  "quoted p = [CHR 0x22] @ p @ [CHR 0x22]"

definition mkdir_p :: "string \<Rightarrow> string" where
  "mkdir_p p = ''mkdir -p '' @ quoted p"

text \<open>\<^verbatim>\<open>await this.ssh.execCommand(command, options)\<close> and \<^verbatim>\<open>await this.ssh.putFile(..)\<close>.\<close>

definition exec ::
  "'r node_ssh \<Rightarrow> string \<Rightarrow> string option \<Rightarrow> 'r deployer \<Rightarrow> exec_result result \<times> 'r deployer" where
  "exec P command cwd s =
     (case ssh_execCommand P command cwd (ssh s) of
        (res, r) \<Rightarrow> (res, (log (Exec command cwd) s)\<lparr>ssh := r\<rparr>))"

definition put :: "'r node_ssh \<Rightarrow> string \<Rightarrow> string \<Rightarrow> 'r deployer \<Rightarrow> unit result \<times> 'r deployer" where
  "put P localFile remoteFile s =
     (case ssh_putFile P localFile remoteFile (ssh s) of
        (res, r) \<Rightarrow> (res, (log (Put localFile remoteFile) s)\<lparr>ssh := r\<rparr>))"

text \<open>
  A progress callback is optional; called, it returns (\<open>None\<close>) or throws. The loop of
  \<^verbatim>\<open>createDirectories\<close> over the directories that are left:
\<close>

fun create_loop ::
  "'r node_ssh \<Rightarrow> string \<Rightarrow> (string \<Rightarrow> error option) option \<Rightarrow> string list \<Rightarrow> 'r deployer
    \<Rightarrow> unit result \<times> 'r deployer" where
  "create_loop P baseDir onProgress [] s = (Inr (), s)"
| "create_loop P baseDir onProgress (dir # directories) s =
     (let fullPath = baseDir @ ''/'' @ dir in
      case exec P (mkdir_p fullPath) None s of
        (Inl e, s1) \<Rightarrow> (Inl e, s1)
      | (Inr res, s1) \<Rightarrow>
          (case onProgress of
             None \<Rightarrow> create_loop P baseDir onProgress directories s1
           | Some callback \<Rightarrow>
               (case callback dir of
                  Some e \<Rightarrow> (Inl e, log (DirProgress dir) s1)
                | None \<Rightarrow>
                    create_loop P baseDir onProgress directories (log (DirProgress dir) s1))))"

definition createDirectories ::
  "'r node_ssh \<Rightarrow> string \<Rightarrow> string list \<Rightarrow> (string \<Rightarrow> error option) option \<Rightarrow> 'r deployer
    \<Rightarrow> unit result \<times> 'r deployer" where
  "createDirectories P baseDir directories onProgress s =
     (case exec P (mkdir_p baseDir) None s of
        (Inl e, s1) \<Rightarrow> (Inl e, s1)
      | (Inr res, s1) \<Rightarrow> create_loop P baseDir onProgress directories s1)"

text \<open>
  The loop of \<^verbatim>\<open>uploadFiles\<close> from index \<open>i\<close> on, \<open>files\<close> being the mappings from that
  index and \<open>total_count\<close> (the \<^verbatim>\<open>total\<close> of the source) the length of the whole array.
\<close>

fun upload_loop ::
  "'r node_ssh \<Rightarrow> string \<Rightarrow> (nat \<Rightarrow> nat \<Rightarrow> string \<Rightarrow> error option) option \<Rightarrow> nat \<Rightarrow> nat
    \<Rightarrow> file_mapping list \<Rightarrow> 'r deployer \<Rightarrow> unit result \<times> 'r deployer" where
  "upload_loop P baseDir onProgress total_count i [] s = (Inr (), s)"
| "upload_loop P baseDir onProgress total_count i (file # files) s =
     (let remotePath = baseDir @ ''/'' @ remote file in
      case put P (local file) remotePath s of
        (Inl e, s1) \<Rightarrow> (Inl e, s1)
      | (Inr u, s1) \<Rightarrow>
          (case onProgress of
             None \<Rightarrow> upload_loop P baseDir onProgress total_count (i + 1) files s1
           | Some callback \<Rightarrow>
               (case callback (i + 1) total_count (remote file) of
                  Some e \<Rightarrow> (Inl e, log (FileProgress (i + 1) total_count (remote file)) s1)
                | None \<Rightarrow>
                    upload_loop P baseDir onProgress total_count (i + 1) files
                      (log (FileProgress (i + 1) total_count (remote file)) s1))))"

definition uploadFiles ::
  "'r node_ssh \<Rightarrow> string \<Rightarrow> file_mapping list \<Rightarrow> (nat \<Rightarrow> nat \<Rightarrow> string \<Rightarrow> error option) option
    \<Rightarrow> 'r deployer \<Rightarrow> unit result \<times> 'r deployer" where
  "uploadFiles P baseDir files onProgress s =
     upload_loop P baseDir onProgress (length files) 0 files s"

text \<open>What a log says was run, sent and reported.\<close>

fun commands_of :: "event list \<Rightarrow> string list" where
  "commands_of [] = []"
| "commands_of (Exec command cwd # evs) = command # commands_of evs"
| "commands_of (ev # evs) = commands_of evs"

fun puts_of :: "event list \<Rightarrow> (string \<times> string) list" where
  "puts_of [] = []"
| "puts_of (Put localFile remoteFile # evs) = (localFile, remoteFile) # puts_of evs"
| "puts_of (ev # evs) = puts_of evs"




subsection \<open>executeScript and getServerInfo\<close>

text \<open>
  \<^verbatim>\<open>String.prototype.includes\<close> is the test for a contiguous sublist. \<^verbatim>\<open>trim\<close> removes
  white space and line terminators at both ends; below code unit 256 these are the
  characters 9 to 13, the space and the no-break space.
\<close>

definition js_whitespace :: "char \<Rightarrow> bool" where
  "js_whitespace c \<longleftrightarrow>
     c \<in> {CHR 0x09, CHR 0x0A, CHR 0x0B, CHR 0x0C, CHR 0x0D, CHR 0x20, CHR 0xA0}"

definition trim :: "string \<Rightarrow> string" where
  "trim s = rev (dropWhile js_whitespace (rev (dropWhile js_whitespace s)))"

definition executeScript ::
  "'r node_ssh \<Rightarrow> string \<Rightarrow> string \<Rightarrow> 'r deployer \<Rightarrow> exec_result result \<times> 'r deployer" where
  "executeScript P baseDir scriptName s =
     (let scriptPath = baseDir @ ''/'' @ scriptName in
      case exec P (''test -f '' @ quoted scriptPath @ '' && echo '' @ quoted ''exists'') None s of
        (Inl e, s1) \<Rightarrow> (Inl e, s1)
      | (Inr checkResult, s1) \<Rightarrow>
          if \<not> sublist ''exists'' (stdout checkResult)
          then (Inl (Error (''Script not found: '' @ scriptPath)), s1)
          else (case exec P (''chmod +x '' @ quoted scriptPath) None s1 of
                  (Inl e, s2) \<Rightarrow> (Inl e, s2)
                | (Inr chmodResult, s2) \<Rightarrow>
                    exec P (''cd '' @ quoted baseDir @ '' && bash '' @ quoted scriptPath)
                      (Some baseDir) s2))"

record server_info =
  info_hostname :: string
  info_os :: string
  info_uptime :: string

definition os_release_command :: string where
  "os_release_command =
     ''cat /etc/os-release 2>/dev/null | grep PRETTY_NAME | cut -d= -f2 | tr -d '' @
     [CHR 0x27, CHR 0x22, CHR 0x27]"

definition getServerInfo :: "'r node_ssh \<Rightarrow> 'r deployer \<Rightarrow> server_info result \<times> 'r deployer" where
  "getServerInfo P s =
     (case exec P ''hostname'' None s of
        (Inl e, s1) \<Rightarrow> (Inl e, s1)
      | (Inr hostname, s1) \<Rightarrow>
          (case exec P os_release_command None s1 of
             (Inl e, s2) \<Rightarrow> (Inl e, s2)
           | (Inr os, s2) \<Rightarrow>
               (case exec P ''uptime -p 2>/dev/null || uptime'' None s2 of
                  (Inl e, s3) \<Rightarrow> (Inl e, s3)
                | (Inr uptime, s3) \<Rightarrow>
                    (Inr \<lparr>info_hostname = trim (stdout hostname),
                          info_os = (if trim (stdout os) \<noteq> [] then trim (stdout os)
                                     else ''Unknown''),
                          info_uptime = trim (stdout uptime)\<rparr>, s3))))"

section \<open>commands/deploy.js and utils/config.js\<close>

subsection \<open>Configuration\<close>

text \<open>
  The options of the command line as commander hands them over: a string option that was
  not given is the empty string, and \<^verbatim>\<open>options.run\<close> is absent, the bare flag or a script
  name. The sections of the configuration that the deploy command reads.
\<close>

datatype run_option = RunAbsent | RunFlag | RunScript string

record cli_options =
  opt_config :: string
  opt_ip :: string
  opt_user :: string
  opt_password :: string
  opt_key :: string
  opt_directory :: string
  opt_run :: run_option

record config =
  connection :: connection_config
  deploy :: exclude_config
  scripts_afterDeploy :: string

definition or_else :: "string \<Rightarrow> string \<Rightarrow> string" where
  "or_else a b = (if a \<noteq> [] then a else b)"

definition mergeWithCliOptions :: "config \<Rightarrow> cli_options \<Rightarrow> config" where
  "mergeWithCliOptions cfg options =
     cfg\<lparr>connection := (connection cfg)
       \<lparr>host := or_else (opt_ip options) (host (connection cfg)),
        username := or_else (opt_user options) (username (connection cfg)),
        password := or_else (opt_password options) (password (connection cfg)),
        privateKeyPath := or_else (opt_key options) (privateKeyPath (connection cfg)),
        targetDirectory := or_else (opt_directory options) (targetDirectory (connection cfg))\<rparr>\<rparr>"

text \<open>\<^verbatim>\<open>validateConfig\<close> returns the missing fields; the configuration is valid when none is.\<close>

definition validateConfig :: "config \<Rightarrow> string list" where
  "validateConfig cfg =
     (if host (connection cfg) = [] then [''host (use -ip or set in config.json)''] else []) @
     (if username (connection cfg) = [] then [''username (use -u or set in config.json)'']
      else []) @
     (if password (connection cfg) = [] \<and> privateKeyPath (connection cfg) = []
      then [''password or privateKeyPath (use -p/-k or set in config.json)''] else []) @
     (if targetDirectory (connection cfg) = []
      then [''targetDirectory (use -dir or set in config.json)''] else [])"

subsection \<open>deployCommand\<close>

text \<open>
  What the command finds on the local machine: the result of \<^verbatim>\<open>loadConfig\<close> for a path
  (reading and parsing the file is not modelled), the working directory and the tree below
  it, the files \<^verbatim>\<open>connect\<close> looks the key up in, and what drawing the progress bar on
  \<^verbatim>\<open>process.stdout\<close> does for the arguments of the callback: it returns or it throws.
  Writing to the console is taken not to throw and is left out.
\<close>

record deploy_env =
  env_loadConfig :: "string \<Rightarrow> config result"
  env_cwd :: string
  env_tree :: fs_node
  env_key_fs :: local_fs
  env_draw_progress :: "nat \<Rightarrow> nat \<Rightarrow> string \<Rightarrow> error option"

text \<open>
  How the command ends: it returns, or \<^verbatim>\<open>process.exit\<close> ends the process with a code.
\<close>

datatype ending = Returned | Exit nat

text \<open>
  \<^verbatim>\<open>// Execute script if requested\<close>: the inner \<^verbatim>\<open>try\<close> reports an error of the script and
  goes on.
\<close>

definition run_script :: "'r node_ssh \<Rightarrow> config \<Rightarrow> cli_options \<Rightarrow> 'r deployer \<Rightarrow> 'r deployer" where
  "run_script P cfg options s =
     (case opt_run options of
        RunAbsent \<Rightarrow> s
      | RunFlag \<Rightarrow>
          snd (executeScript P (targetDirectory (connection cfg)) (scripts_afterDeploy cfg)
                 (log (Invoke MExecuteScript) s))
      | RunScript scriptName \<Rightarrow>
          snd (executeScript P (targetDirectory (connection cfg)) scriptName
                 (log (Invoke MExecuteScript) s)))"

text \<open>
  The \<^verbatim>\<open>try\<close> block from \<^verbatim>\<open>// Get server info\<close> to \<^verbatim>\<open>// Disconnect\<close>. An error of
  \<^verbatim>\<open>getServerInfo\<close> is swallowed by its own \<^verbatim>\<open>try\<close>.
\<close>

definition transfer ::
  "'r node_ssh \<Rightarrow> deploy_env \<Rightarrow> config \<Rightarrow> cli_options \<Rightarrow> file_mapping list \<Rightarrow> string list
    \<Rightarrow> 'r deployer \<Rightarrow> unit result \<times> 'r deployer" where
  "transfer P env cfg options files directories s =
     (let s1 = snd (getServerInfo P (log (Invoke MGetServerInfo) s)) in
      case (if directories \<noteq> []
            then createDirectories P (targetDirectory (connection cfg)) directories None
                   (log (Invoke MCreateDirectories) s1)
            else (Inr (), s1)) of
        (Inl e, s2) \<Rightarrow> (Inl e, s2)
      | (Inr u, s2) \<Rightarrow>
          (case uploadFiles P (targetDirectory (connection cfg)) files
                  (Some (env_draw_progress env)) (log (Invoke MUploadFiles) s2) of
             (Inl e, s3) \<Rightarrow> (Inl e, s3)
           | (Inr v, s3) \<Rightarrow>
               (Inr (), disconnect P (log (Invoke MDisconnect) (run_script P cfg options s3)))))"

text \<open>
  The whole \<^verbatim>\<open>try\<close> block: \<open>Inl\<close> is an error on its way to the \<^verbatim>\<open>catch\<close>, \<open>Inr\<close> the
  way the block ends otherwise. \<^verbatim>\<open>process.exit\<close> inside the block ends the process at
  once, past the \<^verbatim>\<open>catch\<close>.
\<close>

definition deploy_try ::
  "'r node_ssh \<Rightarrow> deploy_env \<Rightarrow> cli_options \<Rightarrow> 'r deployer \<Rightarrow> ending result \<times> 'r deployer" where
  "deploy_try P env options s =
     (let configPath = or_else (opt_config options) ''deployment-config.json'' in
      case env_loadConfig env configPath of
        Inl e \<Rightarrow> (Inl e, s)
      | Inr loaded \<Rightarrow>
          (let cfg = mergeWithCliOptions loaded options in
           if validateConfig cfg \<noteq> [] then (Inr (Exit 1), s)
           else
             (case scanDirectory (env_tree env) (env_cwd env) (deploy cfg) (env_cwd env) of
                Inl e \<Rightarrow> (Inl e, s)
              | Inr files \<Rightarrow>
                  (let directories = getRemoteDirectories files in
                   if length files = 0 then (Inr (Exit 0), s)
                   else
                     (case connect P (env_key_fs env) (connection cfg) (log (Invoke MConnect) s) of
                        (Inl e, s1) \<Rightarrow> (Inl e, s1)
                      | (Inr u, s1) \<Rightarrow>
                          (case transfer P env cfg options files directories s1 of
                             (Inl e, s2) \<Rightarrow> (Inl e, s2)
                           | (Inr v, s2) \<Rightarrow> (Inr Returned, s2)))))))"

text \<open>
  The command makes its deployer, runs the block, and in the \<^verbatim>\<open>catch\<close> reports the
  error, disconnects and exits with code 1.
\<close>

definition deployCommand ::
  "'r node_ssh \<Rightarrow> deploy_env \<Rightarrow> cli_options \<Rightarrow> 'r \<Rightarrow> ending \<times> 'r deployer" where
  "deployCommand P env options fresh =
     (case deploy_try P env options (new_SSHDeployer fresh) of
        (Inr ending, s) \<Rightarrow> (ending, s)
      | (Inl e, s) \<Rightarrow> (Exit 1, disconnect P (log (Invoke MDisconnect) s)))"

text \<open>A state that a call of \<^verbatim>\<open>disconnect\<close> by the deploy command has just left.\<close>

definition ends_disconnected :: "'r node_ssh \<Rightarrow> 'r deployer \<Rightarrow> bool" where
  "ends_disconnected P s \<longleftrightarrow> (\<exists>s1. s = disconnect P (log (Invoke MDisconnect) s1))"

section \<open>Example inputs\<close>

definition example_files :: "file_mapping list" where
  "example_files = [\<lparr>local = ''/w/a/b/c.txt'', remote = ''a/b/c.txt''\<rparr>,
                    \<lparr>local = ''/w/a/d.txt'', remote = ''a/d.txt''\<rparr>]"

definition example_tree :: fs_node where
  "example_tree = Directory
     [(''src'', Directory [(''index.js'', File)]),
      (''node_modules'', Unreadable (Error ''EACCES: permission denied'')),
      (''deploy.sh'', File),
      (''notes.txt'', File),
      (''old.log'', Directory [(''keep.txt'', File), (''app.log'', File)])]"

definition example_rules :: exclude_config where
  "example_rules = \<lparr>excludeDirectories = [''node_modules''], excludeFiles = [''notes.txt''],
     excludePatterns = [''*.log'']\<rparr>"

definition example_scan :: "file_mapping list" where
  "example_scan = [\<lparr>local = ''/w/src/index.js'', remote = ''src/index.js''\<rparr>,
                   \<lparr>local = ''/w/deploy.sh'', remote = ''deploy.sh''\<rparr>,
                   \<lparr>local = ''/w/old.log/keep.txt'', remote = ''old.log/keep.txt''\<rparr>]"

text \<open>
  The exclusion rules of \<^verbatim>\<open>DEFAULT_CONFIG\<close> in utils/config.js, and a directory that
  holds a file named \<^verbatim>\<open>changelog\<close>.
\<close>

definition default_rules :: exclude_config where
  "default_rules =
     \<lparr>excludeDirectories = [''node_modules'', ''logs'', ''.git'', ''.idea'', ''.vscode''],
      excludeFiles = [''package-lock.json'', ''.env.local'', ''.DS_Store''],
      excludePatterns = [''*.log'', ''*.tmp'']\<rparr>"

definition changelog_tree :: fs_node where
  "changelog_tree = Directory [(''changelog'', File), (''app.js'', File)]"

text \<open>
  Three hosts with no state of their own. On \<open>steady_host\<close> every operation succeeds. On
  \<open>faulty_host\<close> the command that makes \<^verbatim>\<open>/srv/app/a/b\<close> and the transfers to
  \<^verbatim>\<open>/srv/app/c.txt\<close> and \<^verbatim>\<open>/srv/app/deploy.sh\<close> are rejected. On \<open>denying_host\<close>
  every command completes with exit code 1.
\<close>

definition steady_host :: "unit node_ssh" where
  "steady_host =
     \<lparr>ssh_connect = (\<lambda>config r. (Inr (), r)),
      ssh_execCommand = (\<lambda>command cwd r. (Inr \<lparr>stdout = ''exists'', stderr = [], code = 0\<rparr>, r)),
      ssh_putFile = (\<lambda>localFile remoteFile r. (Inr (), r)),
      ssh_dispose = (\<lambda>r. r)\<rparr>"

definition faulty_host :: "unit node_ssh" where
  "faulty_host =
     \<lparr>ssh_connect = (\<lambda>config r. (Inr (), r)),
      ssh_execCommand = (\<lambda>command cwd r.
        if command = mkdir_p ''/srv/app/a/b'' then (Inl (Error ''No response from server''), r)
        else (Inr \<lparr>stdout = ''exists'', stderr = [], code = 0\<rparr>, r)),
      ssh_putFile = (\<lambda>localFile remoteFile r.
        if remoteFile = ''/srv/app/c.txt'' \<or> remoteFile = ''/srv/app/deploy.sh''
        then (Inl (Error ''Permission denied''), r) else (Inr (), r)),
      ssh_dispose = (\<lambda>r. r)\<rparr>"

definition denying_host :: "unit node_ssh" where
  "denying_host =
     \<lparr>ssh_connect = (\<lambda>config r. (Inr (), r)),
      ssh_execCommand = (\<lambda>command cwd r.
        (Inr \<lparr>stdout = [], stderr = ''mkdir: cannot create directory: Permission denied'',
              code = 1\<rparr>, r)),
      ssh_putFile = (\<lambda>localFile remoteFile r. (Inr (), r)),
      ssh_dispose = (\<lambda>r. r)\<rparr>"

text \<open>
  A host that accepts the key \<^verbatim>\<open>KEY\<close> offered without a password and rejects every
  other configuration.
\<close>

definition key_only_host :: "unit node_ssh" where
  "key_only_host =
     \<lparr>ssh_connect = (\<lambda>config r.
        if cfg_privateKey config = Some ''KEY'' \<and> cfg_password config = None then (Inr (), r)
        else (Inl (Error ''All configured authentication methods failed''), r)),
      ssh_execCommand = (\<lambda>command cwd r. (Inr \<lparr>stdout = [], stderr = [], code = 0\<rparr>, r)),
      ssh_putFile = (\<lambda>localFile remoteFile r. (Inr (), r)),
      ssh_dispose = (\<lambda>r. r)\<rparr>"

definition open_deployer :: "unit deployer" where
  "open_deployer = \<lparr>ssh = (), connected = True, trace = []\<rparr>"

definition quiet :: "nat \<Rightarrow> nat \<Rightarrow> string \<Rightarrow> error option" where
  "quiet completed total_count remotePath = None"


definition example_fs :: local_fs where
  "example_fs =
     \<lparr>resolve = (\<lambda>p. ''/w/'' @ p),
      existsSync = (\<lambda>p. p = ''/w/id_rsa''),
      readFileSync = (\<lambda>p. if p = ''/w/id_rsa'' then Inr ''KEY''
                           else Inl (Error ''ENOENT: no such file or directory''))\<rparr>"

definition example_connection :: connection_config where
  "example_connection =
     \<lparr>host = ''10.0.0.5'', username = ''deploy'', password = ''secret'',
      privateKeyPath = ''id_rsa'', targetDirectory = ''/srv/app''\<rparr>"

definition example_env :: deploy_env where
  "example_env =
     \<lparr>env_loadConfig = (\<lambda>configPath.
        Inr \<lparr>connection = example_connection, deploy = example_rules,
             scripts_afterDeploy = ''deploy.sh''\<rparr>),
      env_cwd = ''/w'', env_tree = example_tree, env_key_fs = example_fs,
      env_draw_progress = quiet\<rparr>"

definition example_options :: cli_options where
  "example_options =
     \<lparr>opt_config = [], opt_ip = [], opt_user = [], opt_password = [], opt_key = [],
      opt_directory = [], opt_run = RunFlag\<rparr>"

section \<open>Properties\<close>

subsection \<open>matchesPattern\<close>

text \<open>The regular expression of a modelled pattern.\<close>

lemma parse_atoms_plain:
  "\<not> syntax_character c \<Longrightarrow> parse_atoms (c # cs) = map_option (Cons (RxChar c)) (parse_atoms cs)"
  by (cases cs) (auto simp: syntax_character_def)

lemma parse_atoms_star:
  "parse_atoms (CHR ''.'' # CHR ''*'' # cs) = map_option (Cons RxAnyStar) (parse_atoms cs)"
  by simp

lemma parse_atoms_dot:
  "parse_atoms (CHR ''.'' # replace_stars cs) =
     map_option (Cons RxAny) (parse_atoms (replace_stars cs))"
proof (cases cs)
  case Nil
  then show ?thesis by (simp add: replace_stars_def)
next
  case (Cons c cs')
  show ?thesis
  proof (cases "c = CHR ''*''")
    case True
    then have "replace_stars cs = CHR ''.'' # CHR ''*'' # replace_stars cs'"
      using Cons by (simp add: replace_stars_def)
    then show ?thesis by simp
  next
    case False
    then have "replace_stars cs = c # replace_stars cs'"
      using Cons by (simp add: replace_stars_def)
    then show ?thesis using False by simp
  qed
qed

lemma parse_replace_stars:
  "\<forall>c \<in> set pattern. c = CHR ''*'' \<or> c = CHR ''.'' \<or> \<not> syntax_character c \<Longrightarrow>
   parse_atoms (replace_stars pattern) = Some (pattern_atoms pattern)"
proof (induction pattern)
  case Nil
  show ?case by (simp add: replace_stars_def pattern_atoms_def)
next
  case (Cons c cs)
  then have IH: "parse_atoms (replace_stars cs) = Some (pattern_atoms cs)" by simp
  consider "c = CHR ''*''" | "c = CHR ''.''" | "c \<noteq> CHR ''*''" "c \<noteq> CHR ''.''" by blast
  then show ?case
  proof cases
    case 1
    have "replace_stars (c # cs) = CHR ''.'' # CHR ''*'' # replace_stars cs"
      using 1 by (simp add: replace_stars_def)
    then show ?thesis using 1 IH by (simp add: pattern_atoms_def)
  next
    case 2
    have "replace_stars (c # cs) = CHR ''.'' # replace_stars cs"
      using 2 by (simp add: replace_stars_def)
    then show ?thesis using 2 IH by (simp add: parse_atoms_dot pattern_atoms_def)
  next
    case 3
    then have "\<not> syntax_character c" using Cons.prems by simp
    moreover have "replace_stars (c # cs) = c # replace_stars cs"
      using 3 by (simp add: replace_stars_def)
    ultimately show ?thesis using 3 IH by (simp add: parse_atoms_plain pattern_atoms_def)
  qed
qed

lemma RegExp_anchored:
  "RegExp (CHR ''^'' # body @ ''$'') =
     (case parse_atoms body of None \<Rightarrow> Inl (Unmodelled (CHR ''^'' # body @ ''$''))
      | Some atoms \<Rightarrow> Inr atoms)"
  by (simp add: RegExp_def)

text \<open>On modelled patterns the matcher always returns.\<close>

lemma pattern_matches_returns:
  "modelled_pattern pattern \<Longrightarrow> \<exists>b. pattern_matches filename pattern = Inr b"
  by (auto simp: modelled_pattern_def pattern_matches_def RegExp_anchored parse_replace_stars)

lemma matchesPattern_returns:
  "\<forall>p \<in> set patterns. modelled_pattern p \<Longrightarrow> \<exists>b. matchesPattern filename patterns = Inr b"
proof (induction patterns)
  case Nil
  show ?case by (rule exI [of _ False]) simp
next
  case (Cons p ps)
  obtain b where "pattern_matches filename p = Inr b"
    using Cons.prems pattern_matches_returns by fastforce
  then show ?case using Cons by (cases b) auto
qed

text \<open>
  Where the pattern holds no syntax character but the star and the name no line
  terminator, the regular expression decides the glob of the specification.
\<close>

lemma glob_safe_Cons: "glob_safe (p # ps) \<longleftrightarrow> (p = CHR ''*'' \<or> \<not> syntax_character p) \<and> glob_safe ps"
  by (simp add: glob_safe_def)

lemma not_syntax_not_dot: "\<not> syntax_character c \<Longrightarrow> c \<noteq> CHR ''.''"
  by (auto simp: syntax_character_def)

lemma pattern_atoms_Cons:
  "pattern_atoms (c # cs) =
     (if c = CHR ''*'' then RxAnyStar else if c = CHR ''.'' then RxAny else RxChar c) #
     pattern_atoms cs"
  by (simp add: pattern_atoms_def)

lemma regexp_test_glob:
  "glob_safe p \<Longrightarrow> \<forall>c \<in> set s. \<not> line_terminator c \<Longrightarrow>
   regexp_test (pattern_atoms p) s = glob_match p s"
proof (induction p s rule: glob_match.induct)
  case (1 s)
  show ?case by (simp add: pattern_atoms_def)
next
  case (2 p ps s)
  have safe: "glob_safe ps" using "2.prems"(1) by (simp add: glob_safe_Cons)
  show ?case
  proof (cases "p = CHR ''*''")
    case True
    have a: "regexp_test (pattern_atoms ps) s = glob_match ps s"
      using "2.IH"(1) [OF True safe "2.prems"(2)] .
    show ?thesis
    proof (cases s)
      case Nil
      then show ?thesis using True a by (simp add: pattern_atoms_Cons)
    next
      case (Cons x xs)
      have "regexp_test (pattern_atoms (p # ps)) xs = glob_match (p # ps) xs"
        using "2.IH"(2) [OF True Cons "2.prems"(1)] "2.prems"(2) Cons by simp
      then show ?thesis using True a Cons "2.prems"(2) by (simp add: pattern_atoms_Cons)
    qed
  next
    case False
    then have nd: "p \<noteq> CHR ''.''"
      using "2.prems"(1) not_syntax_not_dot by (auto simp: glob_safe_Cons)
    show ?thesis
    proof (cases s)
      case Nil
      then show ?thesis using False nd by (simp add: pattern_atoms_Cons)
    next
      case (Cons x xs)
      have "regexp_test (pattern_atoms ps) xs = glob_match ps xs"
        using "2.IH"(3) [OF False Cons safe] "2.prems"(2) Cons by simp
      then show ?thesis using False nd Cons by (simp add: pattern_atoms_Cons)
    qed
  qed
qed

lemma glob_match_without_star:
  "CHR ''*'' \<notin> set pattern \<Longrightarrow> glob_match pattern filename \<longleftrightarrow> filename = pattern"
proof (induction pattern arbitrary: filename)
  case Nil
  show ?case by simp
next
  case (Cons p ps)
  then show ?case by (cases filename) auto
qed

lemma pattern_matches_plain_glob:
  assumes "glob_safe pattern" and "\<forall>c \<in> set filename. \<not> line_terminator c"
  shows "pattern_matches filename pattern = Inr (glob_match pattern filename)"
proof (cases "CHR ''*'' \<in> set pattern")
  case True
  have "parse_atoms (replace_stars pattern) = Some (pattern_atoms pattern)"
    using assms(1) by (intro parse_replace_stars) (auto simp: glob_safe_def)
  then show ?thesis
    using True assms by (simp add: pattern_matches_def RegExp_anchored regexp_test_glob)
next
  case False
  then show ?thesis by (simp add: pattern_matches_def glob_match_without_star)
qed

lemma matchesPattern_glob:
  assumes "\<forall>p \<in> set patterns. glob_safe p" and "\<forall>c \<in> set filename. \<not> line_terminator c"
  shows "matchesPattern filename patterns = Inr (\<exists>p \<in> set patterns. glob_match p filename)"
  using assms(1)
proof (induction patterns)
  case Nil
  show ?case by simp
next
  case (Cons p ps)
  have "pattern_matches filename p = Inr (glob_match p filename)"
    using Cons.prems assms(2) by (intro pattern_matches_plain_glob) simp_all
  then show ?case using Cons by (cases "glob_match p filename") simp_all
qed

lemma matchesPattern_examples:
  "matchesPattern ''app.log'' [''*.log''] = Inr True"
  "matchesPattern ''app.log.bak'' [''*.log''] = Inr False"
  by (simp_all add: pattern_matches_def RegExp_def replace_stars_def syntax_character_def
      line_terminator_def)

text \<open>
  Claim C1. The specification has every character but the star escaped, so that
  \<^verbatim>\<open>*.log\<close> matches exactly the names ending in \<^verbatim>\<open>.log\<close>. The source replaces
  the stars and escapes nothing: the dot of \<^verbatim>\<open>*.log\<close> stays the wildcard of the regular
  expression \<^verbatim>\<open>^.*.log$\<close>, and the name \<^verbatim>\<open>changelog\<close> is matched, which the glob of
  the specification rejects. The two examples of the claim hold
  (\<open>matchesPattern_examples\<close>).
\<close>

theorem matchesPattern_dot_not_escaped:
  "matchesPattern ''changelog'' [''*.log''] = Inr True \<and>
   \<not> glob_match ''*.log'' ''changelog''"
  by (simp add: pattern_matches_def RegExp_def replace_stars_def syntax_character_def
      line_terminator_def)

text \<open>
  Claim C10. A pattern without a star is compared with the file name by string equality;
  no regular expression is built, so the comparison cannot fail, and the pattern matches
  exactly the name equal to it.
\<close>

theorem pattern_without_star_is_equality:
  "CHR ''*'' \<notin> set pattern \<Longrightarrow>
   pattern_matches filename pattern = Inr (filename = pattern) \<and>
   matchesPattern filename [pattern] = Inr (filename = pattern)"
  by (cases "filename = pattern") (simp_all add: pattern_matches_def)

theorem pattern_without_star_is_equality_witness:
  "CHR ''*'' \<notin> set ''a.c'' \<and>
   matchesPattern ''a.c'' [''a.c''] = Inr True \<and>
   matchesPattern ''abc'' [''a.c''] = Inr False"
proof -
  have h: "CHR ''*'' \<notin> set ''a.c''" by simp
  show ?thesis
    using h pattern_without_star_is_equality [OF h, of "''a.c''"]
      pattern_without_star_is_equality [OF h, of "''abc''"]
    by simp
qed

subsection \<open>getRemoteDirectories\<close>

lemma split_slash_not_Nil: "split_slash s \<noteq> []"
  by (induction s) (auto split: list.splits)

lemma split_slash_append:
  "split_slash (a @ CHR ''/'' # cs) = split_slash a @ split_slash cs"
  by (induction a) (auto split: list.splits simp: split_slash_not_Nil)

lemma join_slash_Cons:
  "ws \<noteq> [] \<Longrightarrow> join_slash (w # ws) = w @ ''/'' @ join_slash ws"
  by (cases ws) auto

lemma join_split_slash: "join_slash (split_slash s) = s"
proof (induction s)
  case Nil
  show ?case by simp
next
  case (Cons c cs)
  show ?case
  proof (cases "c = CHR ''/''")
    case True
    then show ?thesis using Cons by (simp add: join_slash_Cons split_slash_not_Nil)
  next
    case False
    obtain w ws where sp: "split_slash cs = w # ws"
      using split_slash_not_Nil [of cs] by (cases "split_slash cs") auto
    show ?thesis
    proof (cases ws)
      case Nil
      then show ?thesis using False sp Cons by simp
    next
      case (Cons v vs)
      then show ?thesis using False sp Cons.IH by simp
    qed
  qed
qed

lemma depth_ancestor: "is_ancestor d1 d2 \<Longrightarrow> depth d1 < depth d2"
proof -
  assume "is_ancestor d1 d2"
  then obtain cs where "d2 = d1 @ CHR ''/'' # cs"
    by (auto simp: is_ancestor_def prefix_def)
  then have "depth d2 = depth d1 + depth cs"
    by (simp add: depth_def split_slash_append)
  moreover have "0 < depth cs"
    by (simp add: depth_def split_slash_not_Nil)
  ultimately show ?thesis by simp
qed

lemma set_set_add: "set (set_add s x) = insert x (set s)"
  by (auto simp: set_add_def)

lemma distinct_set_add: "distinct s \<Longrightarrow> distinct (set_add s x)"
  by (simp add: set_add_def)

lemma distinct_add_prefixes:
  "distinct dirs \<Longrightarrow> distinct (add_prefixes current parts dirs)"
  by (induction parts arbitrary: current dirs) (simp_all add: distinct_set_add Let_def)

lemma distinct_collect_dirs: "distinct dirs \<Longrightarrow> distinct (collect_dirs files dirs)"
  by (induction files arbitrary: dirs) (simp_all add: distinct_add_prefixes Let_def)

lemma add_prefixes_mono: "set dirs \<subseteq> set (add_prefixes current parts dirs)"
proof (induction parts arbitrary: current dirs)
  case Nil
  show ?case by simp
next
  case (Cons p ps)
  have "set dirs \<subseteq> set (set_add dirs (if current \<noteq> [] then current @ ''/'' @ p else p))"
    by (auto simp: set_set_add)
  also have "\<dots> \<subseteq> set (add_prefixes (if current \<noteq> [] then current @ ''/'' @ p else p) ps
      (set_add dirs (if current \<noteq> [] then current @ ''/'' @ p else p)))"
    by (rule Cons.IH)
  finally show ?case by (simp add: Let_def)
qed

lemma collect_dirs_mono: "set dirs \<subseteq> set (collect_dirs files dirs)"
proof (induction files arbitrary: dirs)
  case Nil
  show ?case by simp
next
  case (Cons f fs)
  show ?case
    using Cons.IH [of dirs] Cons.IH [of "add_prefixes [] (split_slash (dirname (remote f))) dirs"]
      add_prefixes_mono [of dirs "[]" "split_slash (dirname (remote f))"]
    by (auto simp: Let_def)
qed

lemma add_prefixes_nonempty:
  "current \<noteq> [] \<Longrightarrow> 0 < k \<Longrightarrow> k \<le> length parts \<Longrightarrow>
   current @ ''/'' @ join_slash (take k parts) \<in> set (add_prefixes current parts dirs)"
proof (induction parts arbitrary: current dirs k)
  case Nil
  then show ?case by simp
next
  case (Cons p ps)
  let ?c = "current @ ''/'' @ p"
  show ?case
  proof (cases k)
    case 0
    with Cons.prems show ?thesis by simp
  next
    case (Suc j)
    show ?thesis
    proof (cases j)
      case 0
      have "?c \<in> set (set_add dirs ?c)" by (simp add: set_set_add)
      then have "?c \<in> set (add_prefixes ?c ps (set_add dirs ?c))"
        using add_prefixes_mono by blast
      then show ?thesis using Cons.prems Suc 0 by (simp add: Let_def)
    next
      case (Suc i)
      have "?c @ ''/'' @ join_slash (take j ps) \<in> set (add_prefixes ?c ps (set_add dirs ?c))"
        using Cons.prems \<open>k = Suc j\<close> Suc by (intro Cons.IH) auto
      moreover have "take j ps \<noteq> []" using Cons.prems \<open>k = Suc j\<close> Suc by auto
      ultimately show ?thesis
        using Cons.prems \<open>k = Suc j\<close> by (simp add: Let_def join_slash_Cons)
    qed
  qed
qed

lemma add_prefixes_start:
  assumes "parts \<noteq> []" "hd parts \<noteq> []" "0 < k" "k \<le> length parts"
  shows "join_slash (take k parts) \<in> set (add_prefixes [] parts dirs)"
proof -
  obtain p ps where parts: "parts = p # ps" using assms(1) by (cases parts) auto
  have p: "p \<noteq> []" using assms(2) parts by simp
  obtain j where k: "k = Suc j" using assms(3) by (cases k) auto
  show ?thesis
  proof (cases j)
    case 0
    have "p \<in> set (set_add dirs p)" by (simp add: set_set_add)
    then have "p \<in> set (add_prefixes p ps (set_add dirs p))"
      using add_prefixes_mono by blast
    then show ?thesis using parts k 0 by (simp add: Let_def)
  next
    case (Suc i)
    have "p @ ''/'' @ join_slash (take j ps) \<in> set (add_prefixes p ps (set_add dirs p))"
      using p assms(4) parts k Suc by (intro add_prefixes_nonempty) auto
    moreover have "take j ps \<noteq> []" using assms(4) parts k Suc by auto
    ultimately show ?thesis using parts k by (simp add: Let_def join_slash_Cons)
  qed
qed

lemma split_slash_hd:
  "d \<noteq> [] \<Longrightarrow> hd d \<noteq> CHR ''/'' \<Longrightarrow> hd (split_slash d) \<noteq> []"
  by (cases d) (auto split: list.splits)

lemma ancestor_is_prefix_path:
  assumes "a = d \<or> is_ancestor a d"
  shows "\<exists>k. 0 < k \<and> k \<le> length (split_slash d) \<and> a = join_slash (take k (split_slash d))"
proof -
  from assms show ?thesis
  proof
    assume "a = d"
    then have "a = join_slash (take (length (split_slash d)) (split_slash d))"
      by (simp add: join_split_slash)
    moreover have "0 < length (split_slash d)" by (simp add: split_slash_not_Nil)
    ultimately show ?thesis by blast
  next
    assume "is_ancestor a d"
    then obtain cs where d: "d = a @ CHR ''/'' # cs"
      by (auto simp: is_ancestor_def prefix_def)
    have sp: "split_slash d = split_slash a @ split_slash cs"
      by (simp add: d split_slash_append)
    have "a = join_slash (take (length (split_slash a)) (split_slash d))"
      by (simp add: sp join_split_slash)
    moreover have "0 < length (split_slash a)" by (simp add: split_slash_not_Nil)
    moreover have "length (split_slash a) \<le> length (split_slash d)" by (simp add: sp)
    ultimately show ?thesis by blast
  qed
qed

lemma dirname_scan_bounds: "dirname_scan path n m = Some e \<Longrightarrow> 0 < e \<and> e \<le> n"
  by (induction path n m rule: dirname_scan.induct) (auto split: if_splits)

lemma dirname_relative:
  assumes "is_relative path"
  shows "dirname path \<noteq> [] \<and> hd (dirname path) \<noteq> CHR ''/''"
proof (cases path)
  case Nil
  then show ?thesis by (simp add: dirname_def)
next
  case (Cons c cs)
  then have c: "c \<noteq> CHR ''/''" using assms by (simp add: is_relative_def)
  show ?thesis
  proof (cases "dirname_scan path (length path - 1) True")
    case None
    then show ?thesis using Cons c by (simp add: dirname_def)
  next
    case (Some e)
    then have "0 < e" using dirname_scan_bounds by blast
    then show ?thesis using Cons c Some by (cases e) (auto simp: dirname_def)
  qed
qed


lemma set_getRemoteDirectories:
  "set (getRemoteDirectories files) = set (collect_dirs files [])"
  by (simp add: getRemoteDirectories_def)

lemma collect_dirs_contains:
  assumes "file \<in> set files" "is_relative (remote file)" "dirname (remote file) \<noteq> ''.''"
    "a = dirname (remote file) \<or> is_ancestor a (dirname (remote file))"
  shows "a \<in> set (collect_dirs files dirs)"
  using assms(1)
proof (induction files arbitrary: dirs)
  case Nil
  then show ?case by simp
next
  case (Cons f fs)
  let ?d = "dirname (remote file)"
  show ?case
  proof (cases "f = file")
    case True
    have d: "?d \<noteq> []" "hd ?d \<noteq> CHR ''/''"
      using dirname_relative [OF assms(2)] by simp_all
    obtain k where k: "0 < k" "k \<le> length (split_slash ?d)"
      "a = join_slash (take k (split_slash ?d))"
      using ancestor_is_prefix_path [OF assms(4)] by blast
    have "a \<in> set (add_prefixes [] (split_slash ?d) dirs)"
      unfolding k(3)
      by (rule add_prefixes_start) (simp_all add: split_slash_not_Nil split_slash_hd d k)
    then have "a \<in> set (collect_dirs fs (add_prefixes [] (split_slash ?d) dirs))"
      using collect_dirs_mono by blast
    then show ?thesis using True d(1) assms(3) by (simp add: Let_def)
  next
    case False
    then have "file \<in> set fs" using Cons.prems by simp
    then show ?thesis using Cons.IH by (simp add: Let_def)
  qed
qed

lemma sort_key_index_order:
  assumes "i < length xs" "j < length xs"
    "f (sort_key f xs ! i) < f (sort_key f xs ! j)"
  shows "i < j"
proof (rule ccontr)
  assume "\<not> i < j"
  then have "j \<le> i" by simp
  have "sorted (map f (sort_key f xs))" by (rule sorted_sort_key)
  then have "map f (sort_key f xs) ! j \<le> map f (sort_key f xs) ! i"
    using \<open>j \<le> i\<close> assms(1) by (intro sorted_nth_mono) simp_all
  then show False using assms by simp
qed

text \<open>
  Claim C4. The plan has no repetition; for every entry whose remote path is relative and
  lies in a directory, that directory and every ancestor of it are in the plan; a
  directory of the plan stands at a smaller index than every directory of the plan it is an
  ancestor of; and the entries \<^verbatim>\<open>a/b/c.txt\<close> and \<^verbatim>\<open>a/d.txt\<close> give the plan
  \<^verbatim>\<open>a\<close>, \<^verbatim>\<open>a/b\<close>.
\<close>

theorem getRemoteDirectories_plan:
  "distinct (getRemoteDirectories files) \<and>
   (\<forall>file \<in> set files. is_relative (remote file) \<longrightarrow> dirname (remote file) \<noteq> ''.'' \<longrightarrow>
      (\<forall>a. a = dirname (remote file) \<or> is_ancestor a (dirname (remote file)) \<longrightarrow>
         a \<in> set (getRemoteDirectories files))) \<and>
   (\<forall>i j. i < length (getRemoteDirectories files) \<longrightarrow> j < length (getRemoteDirectories files) \<longrightarrow>
      is_ancestor (getRemoteDirectories files ! i) (getRemoteDirectories files ! j) \<longrightarrow> i < j) \<and>
   getRemoteDirectories [\<lparr>local = l1, remote = ''a/b/c.txt''\<rparr>, \<lparr>local = l2, remote = ''a/d.txt''\<rparr>]
     = [''a'', ''a/b'']"
proof (intro conjI ballI allI impI)
  show "distinct (getRemoteDirectories files)"
    by (simp add: getRemoteDirectories_def distinct_collect_dirs)
next
  fix f a
  assume "f \<in> set files" "is_relative (remote f)" "dirname (remote f) \<noteq> ''.''"
    "a = dirname (remote f) \<or> is_ancestor a (dirname (remote f))"
  then show "a \<in> set (getRemoteDirectories files)"
    unfolding set_getRemoteDirectories by (rule collect_dirs_contains)
next
  fix i j
  assume "i < length (getRemoteDirectories files)" "j < length (getRemoteDirectories files)"
    and anc: "is_ancestor (getRemoteDirectories files ! i) (getRemoteDirectories files ! j)"
  then have "i < length (collect_dirs files [])" "j < length (collect_dirs files [])"
    by (simp_all add: getRemoteDirectories_def)
  moreover have "depth (sort_key depth (collect_dirs files []) ! i)
      < depth (sort_key depth (collect_dirs files []) ! j)"
    using depth_ancestor [OF anc] by (simp add: getRemoteDirectories_def)
  ultimately show "i < j" by (rule sort_key_index_order)
next
  show "getRemoteDirectories [\<lparr>local = l1, remote = ''a/b/c.txt''\<rparr>, \<lparr>local = l2, remote = ''a/d.txt''\<rparr>]
     = [''a'', ''a/b'']"
    by (simp add: getRemoteDirectories_def dirname_def set_add_def depth_def Let_def)
qed

theorem getRemoteDirectories_plan_witness:
  "is_relative ''a/b/c.txt'' \<and> dirname ''a/b/c.txt'' = ''a/b'' \<and> is_ancestor ''a'' ''a/b'' \<and>
   ''a'' \<in> set (getRemoteDirectories example_files) \<and>
   ''a/b'' \<in> set (getRemoteDirectories example_files) \<and>
   getRemoteDirectories example_files = [''a'', ''a/b''] \<and>
   distinct (getRemoteDirectories example_files)"
proof -
  let ?f = "\<lparr>local = ''/w/a/b/c.txt'', remote = ''a/b/c.txt''\<rparr>"
  note plan = getRemoteDirectories_plan [of example_files "''/w/a/b/c.txt''" "''/w/a/d.txt''"]
  have f: "?f \<in> set example_files" by (simp add: example_files_def)
  have rel: "is_relative (remote ?f)" by (simp add: is_relative_def)
  have dn: "dirname (remote ?f) = ''a/b''" by (simp add: dirname_def)
  have anc: "is_ancestor ''a'' ''a/b''" by (simp add: is_ancestor_def)
  have ne: "dirname (remote ?f) \<noteq> ''.''" using dn by simp
  have "\<forall>a. a = dirname (remote ?f) \<or> is_ancestor a (dirname (remote ?f)) \<longrightarrow>
      a \<in> set (getRemoteDirectories example_files)"
    using plan f rel ne by blast
  then have "''a'' \<in> set (getRemoteDirectories example_files)"
    and "''a/b'' \<in> set (getRemoteDirectories example_files)"
    using dn anc by simp_all
  moreover have "getRemoteDirectories example_files = [''a'', ''a/b'']"
    using plan by (simp add: example_files_def)
  moreover have "distinct (getRemoteDirectories example_files)"
    using plan by blast
  ultimately show ?thesis using rel dn anc by simp
qed

subsection \<open>scanDirectory\<close>

lemma concat_slash_join:
  "ds \<noteq> [] \<Longrightarrow> concat (map ((@) ''/'') ds) = ''/'' @ join_slash ds"
proof (induction ds)
  case Nil
  then show ?case by simp
next
  case (Cons d ds)
  then show ?case by (cases ds) auto
qed

lemma below_snoc: "path_join (below baseDir ds) item = below baseDir (ds @ [item])"
  by (simp add: path_join_def below_def)

lemma below_join: "ds \<noteq> [] \<Longrightarrow> below baseDir ds = baseDir @ ''/'' @ join_slash ds"
  by (simp add: below_def concat_slash_join)

lemma path_relative_below:
  "ds \<noteq> [] \<Longrightarrow> path_relative baseDir (below baseDir ds) = Inr (join_slash ds)"
  by (simp add: below_join path_relative_def)

lemma kept_by_code_single: "kept_by_code cfg [name] \<longleftrightarrow> \<not> matcher_excludes cfg name"
  by (simp add: kept_by_code_def)

lemma kept_by_code_Cons:
  "p \<noteq> [] \<Longrightarrow> kept_by_code cfg (name # p) \<longleftrightarrow>
     name \<notin> set (excludeDirectories cfg) \<and> kept_by_code cfg p"
  by (auto simp: kept_by_code_def)

lemma statSync_File: "statSync_isDirectory node = Inr False \<longleftrightarrow> node = File"
  by (cases node) auto

lemma file_at_File: "file_at p File \<longleftrightarrow> p = []"
  by (cases p) auto

lemma file_at_directory:
  "statSync_isDirectory node = Inr True \<Longrightarrow> file_at p node \<Longrightarrow> p \<noteq> []"
  by (cases p) auto

lemma found_Directory: "found cfg baseDir ds (Directory items) = found_in cfg baseDir ds items"
proof -
  have "\<And>p. file_at p (Directory items) \<and> kept_by_code cfg p \<longleftrightarrow>
     (\<exists>entry \<in> set items. \<exists>q. p = fst entry # q \<and> file_at q (snd entry) \<and> kept_by_code cfg (fst entry # q))"
    subgoal for p by (cases p) (auto simp: kept_by_code_def)
    done
  then show ?thesis unfolding found_def found_in_def by (auto; blast)
qed

lemma found_in_Nil: "found_in cfg baseDir ds [] = {}"
  by (simp add: found_in_def)

lemma found_in_Cons:
  "found_in cfg baseDir ds ((item, node) # items) =
     {mapping_of baseDir (ds @ item # p) | p. file_at p node \<and> kept_by_code cfg (item # p)}
     \<union> found_in cfg baseDir ds items"
  by (simp add: found_in_def)

lemma entry_File:
  "{mapping_of baseDir (ds @ item # p) | p. file_at p File \<and> kept_by_code cfg (item # p)} =
     (if matcher_excludes cfg item then {} else {mapping_of baseDir (ds @ [item])})"
  by (auto simp: file_at_File kept_by_code_single)

lemma entry_excluded_directory:
  assumes "statSync_isDirectory node = Inr True" "item \<in> set (excludeDirectories cfg)"
  shows "{mapping_of baseDir (ds @ item # p) | p. file_at p node \<and> kept_by_code cfg (item # p)} = {}"
  using assms file_at_directory [OF assms(1)] by (auto simp: kept_by_code_Cons)

lemma entry_directory:
  assumes "statSync_isDirectory node = Inr True" "item \<notin> set (excludeDirectories cfg)"
  shows "{mapping_of baseDir (ds @ item # p) | p. file_at p node \<and> kept_by_code cfg (item # p)} =
     found cfg baseDir (ds @ [item]) node"
  using assms file_at_directory [OF assms(1)] unfolding found_def
  by (auto simp: kept_by_code_Cons; blast)

lemma scan_found:
  "(\<forall>ds files. dir = below baseDir ds \<longrightarrow>
      scanDirectory node dir cfg baseDir = Inr files \<longrightarrow>
      set files = found cfg baseDir ds node)"
  "(\<forall>ds files. dir' = below baseDir' ds \<longrightarrow>
      scan_items items dir' cfg' baseDir' acc = Inr files \<longrightarrow>
      set files = set acc \<union> found_in cfg' baseDir' ds items)"
proof (induction node dir cfg baseDir and items dir' cfg' baseDir' acc
    rule: scanDirectory_scan_items.induct)
  case (1 items dir excludeConfig baseDir)
  then show ?case by (simp add: found_Directory)
next
  case (2 dir excludeConfig baseDir)
  show ?case by simp
next
  case (3 e dir excludeConfig baseDir)
  show ?case by simp
next
  case (4 e dir excludeConfig baseDir)
  show ?case by simp
next
  case (5 dir excludeConfig baseDir files)
  show ?case by (simp add: found_in_Nil)
next
  case (6 item node items dir cfg baseDir acc)
  show ?case
  proof (intro allI impI)
    fix ds files
    assume dir: "dir = below baseDir ds"
      and run: "scan_items ((item, node) # items) dir cfg baseDir acc = Inr files"
    have full: "path_join dir item = below baseDir (ds @ [item])"
      by (simp add: dir below_snoc)
    have rel: "path_relative baseDir (path_join dir item) = Inr (join_slash (ds @ [item]))"
      by (simp add: full path_relative_below)
    have loc: "below baseDir (ds @ [item]) = baseDir @ ''/'' @ join_slash (ds @ [item])"
      by (simp add: below_join)
    obtain isDir where st: "statSync_isDirectory node = Inr isDir"
      using run rel by (cases "statSync_isDirectory node") (simp_all add: Let_def)
    show "set files = set acc \<union> found_in cfg baseDir ds ((item, node) # items)"
    proof (cases isDir)
      case True
      then have st: "statSync_isDirectory node = Inr True" using st by simp
      show ?thesis
      proof (cases "item \<in> set (excludeDirectories cfg)")
        case ex: True
        have "scan_items items dir cfg baseDir acc = Inr files"
          using run rel st ex by (simp add: Let_def)
        then have "set files = set acc \<union> found_in cfg baseDir ds items"
          using "6.IH"(1) [OF refl rel st refl ex] dir by blast
        then show ?thesis
          by (simp add: found_in_Cons entry_excluded_directory [OF st ex])
      next
        case nex: False
        obtain subFiles where sub:
          "scanDirectory node (path_join dir item) cfg baseDir = Inr subFiles"
          using run rel st nex
          by (cases "scanDirectory node (path_join dir item) cfg baseDir") (simp_all add: Let_def)
        have rest: "scan_items items dir cfg baseDir (acc @ subFiles) = Inr files"
          using run rel st nex sub by (simp add: Let_def)
        have "set subFiles = found cfg baseDir (ds @ [item]) node"
          using "6.IH"(2) [OF refl rel st refl nex] full sub by blast
        moreover have "set files = set (acc @ subFiles) \<union> found_in cfg baseDir ds items"
          using "6.IH"(3) [OF refl rel st refl nex sub] dir rest by blast
        ultimately show ?thesis
          by (simp add: found_in_Cons entry_directory [OF st nex] Un_assoc)
      qed
    next
      case False
      then have st: "statSync_isDirectory node = Inr False" using st by simp
      then have node: "node = File" by (simp add: statSync_File)
      show ?thesis
      proof (cases "item \<in> set (excludeFiles cfg)")
        case ex: True
        have "scan_items items dir cfg baseDir acc = Inr files"
          using run rel st ex by (simp add: Let_def)
        then have "set files = set acc \<union> found_in cfg baseDir ds items"
          using "6.IH"(4) [OF refl rel st refl ex] dir by blast
        moreover have "matcher_excludes cfg item" using ex by (simp add: matcher_excludes_def)
        ultimately show ?thesis by (simp add: found_in_Cons node entry_File)
      next
        case nex: False
        obtain m where mp: "matchesPattern item (excludePatterns cfg) = Inr m"
          using run rel st nex
          by (cases "matchesPattern item (excludePatterns cfg)") (simp_all add: Let_def)
        show ?thesis
        proof (cases m)
          case True
          then have mp: "matchesPattern item (excludePatterns cfg) = Inr True" using mp by simp
          have "scan_items items dir cfg baseDir acc = Inr files"
            using run rel st nex mp by (simp add: Let_def)
          then have "set files = set acc \<union> found_in cfg baseDir ds items"
            using "6.IH"(5) [OF refl rel st refl nex mp refl] dir by blast
          moreover have "matcher_excludes cfg item" using mp by (simp add: matcher_excludes_def)
          ultimately show ?thesis by (simp add: found_in_Cons node entry_File)
        next
          case False
          then have mp: "matchesPattern item (excludePatterns cfg) = Inr False" using mp by simp
          let ?new = "\<lparr>local = path_join dir item,
             remote = to_forward_slashes (join_slash (ds @ [item]))\<rparr>"
          have "scan_items items dir cfg baseDir (acc @ [?new]) = Inr files"
            using run rel st nex mp by (simp add: Let_def)
          then have "set files = set (acc @ [?new]) \<union> found_in cfg baseDir ds items"
            using "6.IH"(6) [OF refl rel st refl nex mp refl] dir by blast
          moreover have "\<not> matcher_excludes cfg item"
            using nex mp by (simp add: matcher_excludes_def)
          moreover have "?new = mapping_of baseDir (ds @ [item])"
            using full loc by (simp add: mapping_of_def)
          ultimately show ?thesis by (simp add: found_in_Cons node entry_File)
        qed
      qed
    qed
  qed
qed

lemma scan_items_skips_excluded_directory:
  assumes "item \<in> set (excludeDirectories cfg)" "statSync_isDirectory node = Inr True"
  shows "scan_items ((item, node) # items) (below baseDir ds) cfg baseDir acc =
     scan_items items (below baseDir ds) cfg baseDir acc"
proof -
  have "path_relative baseDir (path_join (below baseDir ds) item) = Inr (join_slash (ds @ [item]))"
    by (simp add: below_snoc path_relative_below)
  then show ?thesis using assms by (simp add: Let_def)
qed

text \<open>
  The scan of a directory returns whenever the tree below it can be read throughout and
  the patterns are within the model.
\<close>

lemma scan_returns:
  "(\<forall>ds. dir = below baseDir ds \<longrightarrow> readable node \<longrightarrow> node \<noteq> File \<longrightarrow>
      (\<forall>p \<in> set (excludePatterns cfg). modelled_pattern p) \<longrightarrow>
      (\<exists>files. scanDirectory node dir cfg baseDir = Inr files))"
  "(\<forall>ds. dir' = below baseDir' ds \<longrightarrow> (\<forall>entry \<in> set items. readable (snd entry)) \<longrightarrow>
      (\<forall>p \<in> set (excludePatterns cfg'). modelled_pattern p) \<longrightarrow>
      (\<exists>files. scan_items items dir' cfg' baseDir' acc = Inr files))"
proof (induction node dir cfg baseDir and items dir' cfg' baseDir' acc
    rule: scanDirectory_scan_items.induct)
  case (1 items dir excludeConfig baseDir)
  then show ?case by simp
next
  case (2 dir excludeConfig baseDir)
  show ?case by simp
next
  case (3 e dir excludeConfig baseDir)
  show ?case by simp
next
  case (4 e dir excludeConfig baseDir)
  show ?case by simp
next
  case (5 dir excludeConfig baseDir files)
  show ?case by simp
next
  case (6 item node items dir cfg baseDir acc)
  show ?case
  proof (intro allI impI)
    fix ds
    assume dir: "dir = below baseDir ds"
      and rd: "\<forall>entry \<in> set ((item, node) # items). readable (snd entry)"
      and pl: "\<forall>p \<in> set (excludePatterns cfg). modelled_pattern p"
    have rnode: "readable node" and ritems: "\<forall>entry \<in> set items. readable (snd entry)"
      using rd by simp_all
    have full: "path_join dir item = below baseDir (ds @ [item])"
      by (simp add: dir below_snoc)
    have rel: "path_relative baseDir (path_join dir item) = Inr (join_slash (ds @ [item]))"
      by (simp add: full path_relative_below)
    show "\<exists>files. scan_items ((item, node) # items) dir cfg baseDir acc = Inr files"
    proof (cases node)
      case File
      then have st: "statSync_isDirectory node = Inr False" by simp
      show ?thesis
      proof (cases "item \<in> set (excludeFiles cfg)")
        case True
        then show ?thesis
          using "6.IH"(4) [OF refl rel st refl True] dir ritems pl rel st by (simp add: Let_def)
      next
        case False
        obtain m where mp: "matchesPattern item (excludePatterns cfg) = Inr m"
          using matchesPattern_returns [OF pl] by blast
        show ?thesis
        proof (cases m)
          case True
          then have mp: "matchesPattern item (excludePatterns cfg) = Inr True" using mp by simp
          show ?thesis
            using "6.IH"(5) [OF refl rel st refl False mp refl] dir ritems pl rel st False mp
            by (simp add: Let_def)
        next
          case f: False
          then have mp: "matchesPattern item (excludePatterns cfg) = Inr False" using mp by simp
          show ?thesis
            using "6.IH"(6) [OF refl rel st refl False mp refl] dir ritems pl rel st False mp
            by (simp add: Let_def)
        qed
      qed
    next
      case (Directory sub)
      then have st: "statSync_isDirectory node = Inr True" by simp
      show ?thesis
      proof (cases "item \<in> set (excludeDirectories cfg)")
        case True
        then show ?thesis
          using "6.IH"(1) [OF refl rel st refl True] dir ritems pl rel st by (simp add: Let_def)
      next
        case False
        obtain subFiles where sub:
          "scanDirectory node (path_join dir item) cfg baseDir = Inr subFiles"
          using "6.IH"(2) [OF refl rel st refl False] full rnode pl Directory by blast
        show ?thesis
          using "6.IH"(3) [OF refl rel st refl False sub] dir ritems pl rel st False sub
          by (simp add: Let_def)
      qed
    next
      case (Unreadable e)
      then show ?thesis using rnode by simp
    next
      case (Broken e)
      then show ?thesis using rnode by simp
    qed
  qed
qed

lemma scanDirectory_returns:
  assumes "\<forall>entry \<in> set items. readable (snd entry)"
    and "\<forall>p \<in> set (excludePatterns cfg). modelled_pattern p"
  shows "\<exists>files. scanDirectory (Directory items) baseDir cfg baseDir = Inr files"
proof -
  have "baseDir = below baseDir []" by (simp add: below_def)
  moreover have "readable (Directory items)" using assms(1) by simp
  ultimately show ?thesis using scan_returns(1) assms(2) by blast
qed

text \<open>
  Whatever the matcher makes of the patterns, a scan that returns holds exactly the entries
  of the regular files of the tree that the two checks of the source let through and none
  of whose directories is named in \<open>excludeDirectories\<close>: directory names are compared
  with \<open>excludeDirectories\<close> only, never with the patterns, and a directory with an excluded
  name is passed over without being read, whatever it holds.
\<close>

lemma scanDirectory_by_matcher:
  "(scanDirectory tree baseDir excludeConfig baseDir = Inr files \<longrightarrow>
      set files = {mapping_of baseDir p | p. file_at p tree \<and> kept_by_code excludeConfig p}) \<and>
   (item \<in> set (excludeDirectories excludeConfig) \<longrightarrow> statSync_isDirectory node = Inr True \<longrightarrow>
      scan_items ((item, node) # items) (below baseDir ds) excludeConfig baseDir acc =
      scan_items items (below baseDir ds) excludeConfig baseDir acc)"
proof (intro conjI impI)
  assume "scanDirectory tree baseDir excludeConfig baseDir = Inr files"
  moreover have "baseDir = below baseDir []" by (simp add: below_def)
  ultimately have "set files = found excludeConfig baseDir [] tree"
    using scan_found(1) [of baseDir baseDir tree excludeConfig] by blast
  then show "set files = {mapping_of baseDir p | p. file_at p tree \<and> kept_by_code excludeConfig p}"
    by (simp add: found_def)
next
  assume "item \<in> set (excludeDirectories excludeConfig)" "statSync_isDirectory node = Inr True"
  then show "scan_items ((item, node) # items) (below baseDir ds) excludeConfig baseDir acc =
      scan_items items (below baseDir ds) excludeConfig baseDir acc"
    by (rule scan_items_skips_excluded_directory)
qed

lemma scanDirectory_example:
  "scanDirectory example_tree ''/w'' example_rules ''/w'' = Inr example_scan"
  by (simp add: example_tree_def example_rules_def example_scan_def path_join_def
      path_relative_def to_forward_slashes_def pattern_matches_def RegExp_def replace_stars_def
      syntax_character_def line_terminator_def Let_def)

text \<open>
  Where every pattern is \<open>glob_safe\<close> and no file name of the tree holds a line
  terminator, the matcher of the source is the glob of the specification, and the scan
  excludes exactly what the specification says.
\<close>

lemma glob_safe_modelled: "glob_safe p \<Longrightarrow> modelled_pattern p"
  by (auto simp: glob_safe_def modelled_pattern_def)

lemma matcher_excludes_spec:
  assumes "\<forall>pattern \<in> set (excludePatterns cfg). glob_safe pattern"
    and "\<forall>c \<in> set name. \<not> line_terminator c"
  shows "matcher_excludes cfg name \<longleftrightarrow> spec_excludes cfg name"
  using matchesPattern_glob [OF assms]
  by (simp add: matcher_excludes_def spec_excludes_def)

lemma scanDirectory_meets_specification:
  assumes safe: "\<forall>pattern \<in> set (excludePatterns excludeConfig). glob_safe pattern"
    and names: "\<forall>p. file_at p tree \<longrightarrow> p \<noteq> [] \<longrightarrow> (\<forall>c \<in> set (last p). \<not> line_terminator c)"
    and run: "scanDirectory tree baseDir excludeConfig baseDir = Inr files"
  shows "set files = {mapping_of baseDir p | p. file_at p tree \<and> kept_by_spec excludeConfig p}"
proof -
  have same: "kept_by_code excludeConfig p \<longleftrightarrow> kept_by_spec excludeConfig p" if "file_at p tree" for p
  proof (cases "p = []")
    case True
    then show ?thesis by (simp add: kept_by_code_def kept_by_spec_def)
  next
    case False
    then have "\<forall>c \<in> set (last p). \<not> line_terminator c" using names that by blast
    then have "matcher_excludes excludeConfig (last p) \<longleftrightarrow> spec_excludes excludeConfig (last p)"
      using safe by (intro matcher_excludes_spec)
    then show ?thesis by (simp add: kept_by_code_def kept_by_spec_def)
  qed
  have "set files = {mapping_of baseDir p | p. file_at p tree \<and> kept_by_code excludeConfig p}"
    using scanDirectory_by_matcher run by blast
  also have "\<dots> = {mapping_of baseDir p | p. file_at p tree \<and> kept_by_spec excludeConfig p}"
    using same by blast
  finally show ?thesis .
qed

text \<open>
  Claim C6. The specification has the scan exclude exactly the files whose name is in
  \<open>excludeFiles\<close> or is matched by a pattern, the pattern read as a glob. The scan of the
  source asks \<^verbatim>\<open>matchesPattern\<close>, which escapes nothing (claim C1): under the default
  rules the file \<^verbatim>\<open>changelog\<close>, which is in no list and which no pattern matches as a
  glob, is left out of the result, because the dot of \<^verbatim>\<open>*.log\<close> is taken as a wildcard.
  Everything else the claim says holds of the source (\<open>scanDirectory_by_matcher\<close>,
  \<open>scanDirectory_meets_specification\<close>).
\<close>

theorem scanDirectory_drops_changelog:
  "scanDirectory changelog_tree ''/w'' default_rules ''/w'' =
     Inr [\<lparr>local = ''/w/app.js'', remote = ''app.js''\<rparr>] \<and>
   file_at [''changelog''] changelog_tree \<and>
   \<not> spec_excludes default_rules ''changelog'' \<and>
   matcher_excludes default_rules ''changelog''"
  by (simp add: changelog_tree_def default_rules_def spec_excludes_def matcher_excludes_def
      path_join_def path_relative_def to_forward_slashes_def pattern_matches_def RegExp_def
      replace_stars_def syntax_character_def line_terminator_def Let_def)

subsection \<open>The log of a run\<close>

lemma commands_of_append: "commands_of (xs @ ys) = commands_of xs @ commands_of ys"
  by (induction xs rule: commands_of.induct) simp_all



lemma exec_eq:
  "ssh_execCommand P command cwd (ssh s) = (res, r) \<Longrightarrow>
   exec P command cwd s = (res, (log (Exec command cwd) s)\<lparr>ssh := r\<rparr>)"
  by (simp add: exec_def)

lemma exec_trace: "exec P command cwd s = (res, s1) \<Longrightarrow> trace s1 = trace s @ [Exec command cwd]"
  by (auto simp: exec_def log_def split: prod.splits)



lemma create_loop_append:
  "create_loop P baseDir onProgress xs s = (Inr (), s1) \<Longrightarrow>
   create_loop P baseDir onProgress (xs @ ys) s = create_loop P baseDir onProgress ys s1"
proof (induction xs arbitrary: s)
  case Nil
  then show ?case by simp
next
  case (Cons d ds)
  then show ?case
    by (auto simp: Let_def split: prod.splits sum.splits option.splits)
qed

lemma create_loop_commands:
  "create_loop P baseDir onProgress xs s = (Inr (), s1) \<Longrightarrow>
   commands_of (trace s1) =
     commands_of (trace s) @ map (\<lambda>d. mkdir_p (baseDir @ ''/'' @ d)) xs"
proof (induction xs arbitrary: s)
  case Nil
  then show ?case by simp
next
  case (Cons d ds)
  obtain res s2 where ex: "exec P (mkdir_p (baseDir @ ''/'' @ d)) None s = (res, s2)"
    by (cases "exec P (mkdir_p (baseDir @ ''/'' @ d)) None s")
  have tr: "trace s2 = trace s @ [Exec (mkdir_p (baseDir @ ''/'' @ d)) None]"
    using ex by (rule exec_trace)
  show ?case
  proof (cases onProgress)
    case None
    then have "create_loop P baseDir onProgress ds s2 = (Inr (), s1)"
      using Cons.prems ex by (auto simp: Let_def split: sum.splits)
    then show ?thesis using Cons.IH tr by (simp add: commands_of_append)
  next
    case (Some callback)
    then have "create_loop P baseDir onProgress ds (log (DirProgress d) s2) = (Inr (), s1)"
      using Cons.prems ex by (auto simp: Let_def split: sum.splits option.splits)
    then have "commands_of (trace s1) =
        commands_of (trace (log (DirProgress d) s2)) @ map (\<lambda>d. mkdir_p (baseDir @ ''/'' @ d)) ds"
      by (rule Cons.IH)
    then show ?thesis using tr by (simp add: commands_of_append log_def)
  qed
qed



subsection \<open>createDirectories\<close>

text \<open>
  Claim C2, as the source has it. When the provider rejects the command for the base
  directory, or the command for the directory at index \<open>k\<close> after those before it went
  through, \<open>createDirectories\<close> ends there with the error of the provider as it is: the
  commands run are those of the base directory and of the first \<open>k + 1\<close> directories and
  no other.
\<close>

theorem createDirectories_abort:
  "(ssh_execCommand P (mkdir_p baseDir) None (ssh s) = (Inl e, r) \<longrightarrow>
      createDirectories P baseDir directories onProgress s =
        (Inl e, (log (Exec (mkdir_p baseDir) None) s)\<lparr>ssh := r\<rparr>)) \<and>
   (k < length directories \<longrightarrow>
    createDirectories P baseDir (take k directories) onProgress s = (Inr (), sk) \<longrightarrow>
    ssh_execCommand P (mkdir_p (baseDir @ ''/'' @ directories ! k)) None (ssh sk) = (Inl e, r) \<longrightarrow>
      createDirectories P baseDir directories onProgress s =
        (Inl e, (log (Exec (mkdir_p (baseDir @ ''/'' @ directories ! k)) None) sk)\<lparr>ssh := r\<rparr>) \<and>
      commands_of (trace (snd (createDirectories P baseDir directories onProgress s))) =
        commands_of (trace s) @ mkdir_p baseDir #
          map (\<lambda>d. mkdir_p (baseDir @ ''/'' @ d)) (take (Suc k) directories))"
proof (intro conjI impI)
  assume "ssh_execCommand P (mkdir_p baseDir) None (ssh s) = (Inl e, r)"
  then show "createDirectories P baseDir directories onProgress s =
        (Inl e, (log (Exec (mkdir_p baseDir) None) s)\<lparr>ssh := r\<rparr>)"
    by (simp add: createDirectories_def exec_eq)
next
  let ?cmd = "mkdir_p (baseDir @ ''/'' @ directories ! k)"
  assume k: "k < length directories"
    and pre: "createDirectories P baseDir (take k directories) onProgress s = (Inr (), sk)"
    and fail: "ssh_execCommand P ?cmd None (ssh sk) = (Inl e, r)"
  obtain res s0 where base: "exec P (mkdir_p baseDir) None s = (Inr res, s0)"
    and loop: "create_loop P baseDir onProgress (take k directories) s0 = (Inr (), sk)"
    using pre by (auto simp: createDirectories_def split: prod.splits sum.splits)
  have dirs: "directories = take k directories @ directories ! k # drop (Suc k) directories"
    using k by (simp add: id_take_nth_drop)
  have "create_loop P baseDir onProgress directories s0 =
      create_loop P baseDir onProgress (directories ! k # drop (Suc k) directories) sk"
    using create_loop_append [OF loop, of "directories ! k # drop (Suc k) directories"] dirs
    by simp
  also have "\<dots> = (Inl e, (log (Exec ?cmd None) sk)\<lparr>ssh := r\<rparr>)"
    using exec_eq [OF fail] by (simp add: Let_def)
  finally have loop_all: "create_loop P baseDir onProgress directories s0 =
      (Inl e, (log (Exec ?cmd None) sk)\<lparr>ssh := r\<rparr>)" .
  show run: "createDirectories P baseDir directories onProgress s =
      (Inl e, (log (Exec ?cmd None) sk)\<lparr>ssh := r\<rparr>)"
    using base loop_all by (simp add: createDirectories_def)
  have "commands_of (trace sk) =
      commands_of (trace s0) @ map (\<lambda>d. mkdir_p (baseDir @ ''/'' @ d)) (take k directories)"
    using loop by (rule create_loop_commands)
  moreover have "trace s0 = trace s @ [Exec (mkdir_p baseDir) None]"
    using base by (rule exec_trace)
  moreover have "take (Suc k) directories = take k directories @ [directories ! k]"
    using k by (simp add: take_Suc_conv_app_nth)
  ultimately show "commands_of (trace (snd (createDirectories P baseDir directories onProgress s))) =
        commands_of (trace s) @ mkdir_p baseDir #
          map (\<lambda>d. mkdir_p (baseDir @ ''/'' @ d)) (take (Suc k) directories)"
    by (simp add: run log_def commands_of_append)
qed

theorem createDirectories_abort_witness:
  "ssh_execCommand faulty_host (mkdir_p ''/srv/app/a/b'') None () =
     (Inl (Error ''No response from server''), ()) \<and>
   fst (createDirectories faulty_host ''/srv/app/a/b'' [''x''] None open_deployer) =
     Inl (Error ''No response from server'') \<and>
   commands_of (trace (snd (createDirectories faulty_host ''/srv/app/a/b'' [''x''] None
     open_deployer))) = [mkdir_p ''/srv/app/a/b''] \<and>
   fst (createDirectories faulty_host ''/srv/app'' [''a'', ''a/b'', ''c''] None open_deployer) =
     Inl (Error ''No response from server'') \<and>
   commands_of (trace (snd (createDirectories faulty_host ''/srv/app'' [''a'', ''a/b'', ''c''] None
     open_deployer))) = [mkdir_p ''/srv/app'', mkdir_p ''/srv/app/a'', mkdir_p ''/srv/app/a/b'']"
proof -
  let ?ok = "\<lparr>stdout = ''exists'', stderr = [], code = 0\<rparr>"
  let ?sk = "\<lparr>ssh = (), connected = True,
    trace = [Exec (mkdir_p ''/srv/app'') None, Exec (mkdir_p ''/srv/app/a'') None]\<rparr>"
  have rej: "ssh_execCommand faulty_host (mkdir_p ''/srv/app/a/b'') None () =
      (Inl (Error ''No response from server''), ())"
    by (simp add: faulty_host_def)
  have rej': "ssh_execCommand faulty_host (mkdir_p ''/srv/app/a/b'') None (ssh open_deployer) =
      (Inl (Error ''No response from server''), ())"
    by (simp add: faulty_host_def)
  have k: "(1::nat) < length [''a'', ''a/b'', ''c'']" by simp
  have pre: "createDirectories faulty_host ''/srv/app'' (take 1 [''a'', ''a/b'', ''c'']) None
      open_deployer = (Inr (), ?sk)"
    by (simp add: createDirectories_def exec_def faulty_host_def open_deployer_def log_def
        mkdir_p_def quoted_def)
  have fail: "ssh_execCommand faulty_host (mkdir_p (''/srv/app'' @ ''/'' @ [''a'', ''a/b'', ''c''] ! 1))
      None (ssh ?sk) = (Inl (Error ''No response from server''), ())"
    by (simp add: faulty_host_def)
  note base = createDirectories_abort [of faulty_host "''/srv/app/a/b''" open_deployer
      "Error ''No response from server''" "()" "[''x'']" None 0 open_deployer]
  note at_k = createDirectories_abort [of faulty_host "''/srv/app''" open_deployer
      "Error ''No response from server''" "()" "[''a'', ''a/b'', ''c'']" None 1 ?sk]
  have b1: "createDirectories faulty_host ''/srv/app/a/b'' [''x''] None open_deployer =
      (Inl (Error ''No response from server''),
       (log (Exec (mkdir_p ''/srv/app/a/b'') None) open_deployer)\<lparr>ssh := ()\<rparr>)"
    using base rej' by blast
  have k1: "createDirectories faulty_host ''/srv/app'' [''a'', ''a/b'', ''c''] None open_deployer =
        (Inl (Error ''No response from server''),
         (log (Exec (mkdir_p (''/srv/app'' @ ''/'' @ [''a'', ''a/b'', ''c''] ! 1)) None) ?sk)
           \<lparr>ssh := ()\<rparr>)"
    and k2: "commands_of (trace (snd (createDirectories faulty_host ''/srv/app''
        [''a'', ''a/b'', ''c''] None open_deployer))) =
        commands_of (trace open_deployer) @ mkdir_p ''/srv/app'' #
          map (\<lambda>d. mkdir_p (''/srv/app'' @ ''/'' @ d)) (take (Suc 1) [''a'', ''a/b'', ''c''])"
    using at_k k pre fail by blast+
  show ?thesis
    using rej b1 k1 k2 by (simp add: log_def open_deployer_def)
qed

text \<open>
  The claim as it stands fails twice. A \<^verbatim>\<open>mkdir\<close> that completes with exit code 1 is not
  a failure to \<open>createDirectories\<close>, which reads no result: on \<open>denying_host\<close> the next
  directory is attempted and the call succeeds. And the error of a rejected command is
  passed on as it is: the message of \<open>faulty_host\<close> does not name the path.
\<close>

theorem createDirectories_counterexample:
  "ssh_execCommand denying_host (mkdir_p ''/srv/app/a'') None () =
     (Inr \<lparr>stdout = [], stderr = ''mkdir: cannot create directory: Permission denied'',
           code = 1\<rparr>, ()) \<and>
   fst (createDirectories denying_host ''/srv/app'' [''a'', ''a/b''] None open_deployer) = Inr () \<and>
   commands_of (trace (snd (createDirectories denying_host ''/srv/app'' [''a'', ''a/b''] None
     open_deployer))) = [mkdir_p ''/srv/app'', mkdir_p ''/srv/app/a'', mkdir_p ''/srv/app/a/b''] \<and>
   fst (createDirectories faulty_host ''/srv/app'' [''a'', ''a/b'', ''c''] None open_deployer) =
     Inl (Error ''No response from server'') \<and>
   \<not> sublist ''/srv/app/a/b'' ''No response from server'' \<and>
   \<not> sublist ''a/b'' ''No response from server''"
  by (simp add: createDirectories_def exec_def denying_host_def faulty_host_def open_deployer_def
      log_def mkdir_p_def quoted_def sublist_code)

subsection \<open>uploadFiles\<close>




subsection \<open>connect and disconnect\<close>

text \<open>
  Claim C8. \<open>disconnect\<close> has no error result. On a deployer that is not connected, a new
  one among them, it changes nothing; on a connected one it disposes of the provider's
  session once and clears the flag; and a second call changes nothing more.
\<close>

theorem disconnect_idempotent:
  "(\<not> connected s \<longrightarrow> disconnect P s = s) \<and>
   (connected s \<longrightarrow>
      disconnect P s = s\<lparr>ssh := ssh_dispose P (ssh s), connected := False,
        trace := trace s @ [Disposed]\<rparr>) \<and>
   \<not> connected (disconnect P s) \<and>
   disconnect P (disconnect P s) = disconnect P s \<and>
   disconnect P (new_SSHDeployer fresh) = new_SSHDeployer fresh"
  by (simp add: disconnect_def log_def new_SSHDeployer_def)

theorem disconnect_idempotent_witness:
  "connected open_deployer \<and>
   disconnect steady_host open_deployer = \<lparr>ssh = (), connected = False, trace = [Disposed]\<rparr> \<and>
   \<not> connected (disconnect steady_host open_deployer) \<and>
   disconnect steady_host (disconnect steady_host open_deployer) =
     disconnect steady_host open_deployer \<and>
   disconnect steady_host (new_SSHDeployer ()) = new_SSHDeployer ()"
proof -
  have c: "connected open_deployer" by (simp add: open_deployer_def)
  have n: "\<not> connected (new_SSHDeployer ())" by (simp add: new_SSHDeployer_def)
  note t = disconnect_idempotent [of open_deployer steady_host "()"]
  note u = disconnect_idempotent [of "new_SSHDeployer ()" steady_host "()"]
  have "disconnect steady_host open_deployer =
      open_deployer\<lparr>ssh := ssh_dispose steady_host (ssh open_deployer), connected := False,
        trace := trace open_deployer @ [Disposed]\<rparr>"
    using t c by blast
  then have "disconnect steady_host open_deployer =
      \<lparr>ssh = (), connected = False, trace = [Disposed]\<rparr>"
    by (simp add: open_deployer_def)
  moreover have "\<not> connected (disconnect steady_host open_deployer)"
    and "disconnect steady_host (disconnect steady_host open_deployer) =
      disconnect steady_host open_deployer"
    using t by blast+
  moreover have "disconnect steady_host (new_SSHDeployer ()) = new_SSHDeployer ()"
    using u n by blast
  ultimately show ?thesis using c by simp
qed

text \<open>
  Claim C9. With neither a key path nor a password \<open>connect\<close> throws
  \<^verbatim>\<open>No authentication method provided (password or private key)\<close>, and with a key path
  whose file does not exist it throws \<^verbatim>\<open>Private key file not found\<close>; either way the
  deployer is left as it was: the provider is not called, and the flag keeps its value.
\<close>

theorem connect_without_credentials:
  "(privateKeyPath connectionConfig = [] \<and> password connectionConfig = [] \<longrightarrow>
      connect P fs connectionConfig s =
        (Inl (Error ''No authentication method provided (password or private key)''), s)) \<and>
   (privateKeyPath connectionConfig \<noteq> [] \<and>
    \<not> existsSync fs (resolve fs (privateKeyPath connectionConfig)) \<longrightarrow>
      connect P fs connectionConfig s =
        (Inl (Error (''Private key file not found: '' @
           resolve fs (privateKeyPath connectionConfig))), s))"
  by (simp add: connect_def Let_def)

theorem connect_without_credentials_witness:
  "connect steady_host example_fs (example_connection\<lparr>password := [], privateKeyPath := []\<rparr>)
     (new_SSHDeployer ()) =
     (Inl (Error ''No authentication method provided (password or private key)''),
      \<lparr>ssh = (), connected = False, trace = []\<rparr>) \<and>
   connect steady_host example_fs (example_connection\<lparr>privateKeyPath := ''missing''\<rparr>)
     (new_SSHDeployer ()) =
     (Inl (Error ''Private key file not found: /w/missing''),
      \<lparr>ssh = (), connected = False, trace = []\<rparr>)"
proof -
  let ?none = "example_connection\<lparr>password := [], privateKeyPath := []\<rparr>"
  let ?gone = "example_connection\<lparr>privateKeyPath := ''missing''\<rparr>"
  have h1: "privateKeyPath ?none = [] \<and> password ?none = []" by simp
  have h2: "privateKeyPath ?gone \<noteq> [] \<and> \<not> existsSync example_fs (resolve example_fs (privateKeyPath ?gone))"
    by (simp add: example_fs_def)
  have "connect steady_host example_fs ?none (new_SSHDeployer ()) =
      (Inl (Error ''No authentication method provided (password or private key)''),
       new_SSHDeployer ())"
    using connect_without_credentials [of ?none steady_host example_fs "new_SSHDeployer ()"] h1
    by blast
  moreover have "connect steady_host example_fs ?gone (new_SSHDeployer ()) =
      (Inl (Error (''Private key file not found: '' @ resolve example_fs (privateKeyPath ?gone))),
       new_SSHDeployer ())"
    using connect_without_credentials [of ?gone steady_host example_fs "new_SSHDeployer ()"] h2
    by blast
  ultimately show ?thesis by (simp add: new_SSHDeployer_def example_fs_def)
qed

text \<open>
  Claim C7. With a key path, and the key file there and readable, the provider's
  \<^verbatim>\<open>connect\<close> is called once, with the content of the key file and without a password,
  whatever password the configuration holds, and its outcome is the outcome of \<open>connect\<close>;
  with an empty key path and a password, it is called with the password and without a key;
  and no call of the provider made by \<open>connect\<close> carries a password when a key path is
  set.
\<close>

theorem connect_key_over_password:
  "(privateKeyPath connectionConfig \<noteq> [] \<longrightarrow>
    existsSync fs (resolve fs (privateKeyPath connectionConfig)) \<longrightarrow>
    readFileSync fs (resolve fs (privateKeyPath connectionConfig)) = Inr key \<longrightarrow>
      connect P fs connectionConfig s =
        (case ssh_connect P
                \<lparr>cfg_host = host connectionConfig, cfg_username = username connectionConfig,
                 cfg_privateKey = Some key, cfg_password = None\<rparr> (ssh s) of
           (Inl e, r) \<Rightarrow>
             (Inl e,
              s\<lparr>ssh := r,
                trace := trace s @
                  [ConnectAttempt
                     \<lparr>cfg_host = host connectionConfig, cfg_username = username connectionConfig,
                      cfg_privateKey = Some key, cfg_password = None\<rparr>]\<rparr>)
         | (Inr u, r) \<Rightarrow>
             (Inr (),
              s\<lparr>ssh := r, connected := True,
                trace := trace s @
                  [ConnectAttempt
                     \<lparr>cfg_host = host connectionConfig, cfg_username = username connectionConfig,
                      cfg_privateKey = Some key, cfg_password = None\<rparr>]\<rparr>))) \<and>
   (privateKeyPath connectionConfig = [] \<longrightarrow> password connectionConfig \<noteq> [] \<longrightarrow>
      connect P fs connectionConfig s =
        (case ssh_connect P
                \<lparr>cfg_host = host connectionConfig, cfg_username = username connectionConfig,
                 cfg_privateKey = None, cfg_password = Some (password connectionConfig)\<rparr>
                (ssh s) of
           (Inl e, r) \<Rightarrow>
             (Inl e,
              s\<lparr>ssh := r,
                trace := trace s @
                  [ConnectAttempt
                     \<lparr>cfg_host = host connectionConfig, cfg_username = username connectionConfig,
                      cfg_privateKey = None,
                      cfg_password = Some (password connectionConfig)\<rparr>]\<rparr>)
         | (Inr u, r) \<Rightarrow>
             (Inr (),
              s\<lparr>ssh := r, connected := True,
                trace := trace s @
                  [ConnectAttempt
                     \<lparr>cfg_host = host connectionConfig, cfg_username = username connectionConfig,
                      cfg_privateKey = None,
                      cfg_password = Some (password connectionConfig)\<rparr>]\<rparr>))) \<and>
   (\<forall>config. ConnectAttempt config \<in> set (trace (snd (connect P fs connectionConfig s))) \<longrightarrow>
      ConnectAttempt config \<notin> set (trace s) \<longrightarrow>
      (if privateKeyPath connectionConfig \<noteq> []
       then cfg_password config = None \<and>
            (\<exists>k. cfg_privateKey config = Some k \<and>
                 readFileSync fs (resolve fs (privateKeyPath connectionConfig)) = Inr k)
       else cfg_privateKey config = None \<and>
            cfg_password config = Some (password connectionConfig)))"
proof (intro conjI impI allI)
  let ?keycfg = "\<lparr>cfg_host = host connectionConfig, cfg_username = username connectionConfig,
    cfg_privateKey = Some key, cfg_password = None\<rparr>"
  assume "privateKeyPath connectionConfig \<noteq> []"
    "existsSync fs (resolve fs (privateKeyPath connectionConfig))"
    "readFileSync fs (resolve fs (privateKeyPath connectionConfig)) = Inr key"
  then have "connect P fs connectionConfig s = open_session P ?keycfg s"
    by (simp add: connect_def Let_def)
  then show "connect P fs connectionConfig s =
      (case ssh_connect P ?keycfg (ssh s) of
         (Inl e, r) \<Rightarrow> (Inl e, s\<lparr>ssh := r, trace := trace s @ [ConnectAttempt ?keycfg]\<rparr>)
       | (Inr u, r) \<Rightarrow>
           (Inr (), s\<lparr>ssh := r, connected := True, trace := trace s @ [ConnectAttempt ?keycfg]\<rparr>))"
    by (simp add: open_session_def log_def split: prod.splits sum.splits)
next
  let ?pwcfg = "\<lparr>cfg_host = host connectionConfig, cfg_username = username connectionConfig,
    cfg_privateKey = None, cfg_password = Some (password connectionConfig)\<rparr>"
  assume "privateKeyPath connectionConfig = []" "password connectionConfig \<noteq> []"
  then have "connect P fs connectionConfig s = open_session P ?pwcfg s"
    by (simp add: connect_def Let_def)
  then show "connect P fs connectionConfig s =
      (case ssh_connect P ?pwcfg (ssh s) of
         (Inl e, r) \<Rightarrow> (Inl e, s\<lparr>ssh := r, trace := trace s @ [ConnectAttempt ?pwcfg]\<rparr>)
       | (Inr u, r) \<Rightarrow>
           (Inr (), s\<lparr>ssh := r, connected := True, trace := trace s @ [ConnectAttempt ?pwcfg]\<rparr>))"
    by (simp add: open_session_def log_def split: prod.splits sum.splits)
next
  fix config
  assume "ConnectAttempt config \<in> set (trace (snd (connect P fs connectionConfig s)))"
    "ConnectAttempt config \<notin> set (trace s)"
  then show "if privateKeyPath connectionConfig \<noteq> []
       then cfg_password config = None \<and>
            (\<exists>k. cfg_privateKey config = Some k \<and>
                 readFileSync fs (resolve fs (privateKeyPath connectionConfig)) = Inr k)
       else cfg_privateKey config = None \<and>
            cfg_password config = Some (password connectionConfig)"
    by (auto simp: connect_def open_session_def log_def Let_def
        split: sum.splits prod.splits if_splits)
qed

theorem connect_key_over_password_witness:
  "privateKeyPath example_connection = ''id_rsa'' \<and> password example_connection = ''secret'' \<and>
   connect key_only_host example_fs example_connection (new_SSHDeployer ()) =
     (Inr (), \<lparr>ssh = (), connected = True,
        trace = [ConnectAttempt \<lparr>cfg_host = ''10.0.0.5'', cfg_username = ''deploy'',
          cfg_privateKey = Some ''KEY'', cfg_password = None\<rparr>]\<rparr>) \<and>
   connect key_only_host example_fs (example_connection\<lparr>privateKeyPath := []\<rparr>)
       (new_SSHDeployer ()) =
     (Inl (Error ''All configured authentication methods failed''),
      \<lparr>ssh = (), connected = False,
        trace = [ConnectAttempt \<lparr>cfg_host = ''10.0.0.5'', cfg_username = ''deploy'',
          cfg_privateKey = None, cfg_password = Some ''secret''\<rparr>]\<rparr>)"
proof -
  let ?pw = "example_connection\<lparr>privateKeyPath := []\<rparr>"
  let ?keycfg = "\<lparr>cfg_host = host example_connection, cfg_username = username example_connection,
    cfg_privateKey = Some ''KEY'', cfg_password = None\<rparr>"
  let ?pwcfg = "\<lparr>cfg_host = host ?pw, cfg_username = username ?pw,
    cfg_privateKey = None, cfg_password = Some (password ?pw)\<rparr>"
  let ?s = "new_SSHDeployer ()"
  have k1: "privateKeyPath example_connection \<noteq> []"
    and k2: "existsSync example_fs (resolve example_fs (privateKeyPath example_connection))"
    and k3: "readFileSync example_fs (resolve example_fs (privateKeyPath example_connection)) =
      Inr ''KEY''"
    by (simp_all add: example_connection_def example_fs_def)
  have p1: "privateKeyPath ?pw = []" and p2: "password ?pw \<noteq> []"
    by (simp_all add: example_connection_def)
  have "connect key_only_host example_fs example_connection ?s =
      (case ssh_connect key_only_host ?keycfg (ssh ?s) of
         (Inl e, r) \<Rightarrow> (Inl e, ?s\<lparr>ssh := r, trace := trace ?s @ [ConnectAttempt ?keycfg]\<rparr>)
       | (Inr u, r) \<Rightarrow>
           (Inr (), ?s\<lparr>ssh := r, connected := True, trace := trace ?s @ [ConnectAttempt ?keycfg]\<rparr>))"
    using connect_key_over_password [of example_connection example_fs "''KEY''" key_only_host ?s]
      k1 k2 k3 by blast
  moreover have "connect key_only_host example_fs ?pw ?s =
      (case ssh_connect key_only_host ?pwcfg (ssh ?s) of
         (Inl e, r) \<Rightarrow> (Inl e, ?s\<lparr>ssh := r, trace := trace ?s @ [ConnectAttempt ?pwcfg]\<rparr>)
       | (Inr u, r) \<Rightarrow>
           (Inr (), ?s\<lparr>ssh := r, connected := True, trace := trace ?s @ [ConnectAttempt ?pwcfg]\<rparr>))"
    using connect_key_over_password [of ?pw example_fs "''KEY''" key_only_host ?s] p1 p2
    by blast
  ultimately show ?thesis
    by (simp add: key_only_host_def new_SSHDeployer_def example_connection_def)
qed

subsection \<open>deployCommand\<close>

lemma transfer_ends:
  "transfer P env cfg options files directories s = (Inr u, s') \<Longrightarrow> ends_disconnected P s'"
  unfolding transfer_def Let_def ends_disconnected_def
  by (auto split: prod.splits sum.splits if_splits)

lemma new_trace: "trace (new_SSHDeployer fresh) = []"
  by (simp add: new_SSHDeployer_def)

lemma deploy_try_cases:
  assumes "deploy_try P env options (new_SSHDeployer fresh) = (res, s)"
  shows "s = new_SSHDeployer fresh \<and> res \<noteq> Inr Returned \<or>
    res = Inr Returned \<and> ends_disconnected P s \<or> (\<exists>e. res = Inl e)"
proof (cases "env_loadConfig env (or_else (opt_config options) ''deployment-config.json'')")
  case (Inl e)
  then show ?thesis using assms by (auto simp: deploy_try_def Let_def)
next
  case (Inr loaded)
  let ?cfg = "mergeWithCliOptions loaded options"
  show ?thesis
  proof (cases "validateConfig ?cfg \<noteq> []")
    case True
    then show ?thesis using assms Inr by (auto simp: deploy_try_def Let_def)
  next
    case valid: False
    show ?thesis
    proof (cases "scanDirectory (env_tree env) (env_cwd env) (deploy ?cfg) (env_cwd env)")
      case (Inl e)
      then show ?thesis using assms Inr valid by (auto simp: deploy_try_def Let_def)
    next
      case scan: (Inr files)
      show ?thesis
      proof (cases "files = []")
        case True
        then show ?thesis using assms Inr valid scan by (auto simp: deploy_try_def Let_def)
      next
        case nonempty: False
        obtain rc s1 where c: "connect P (env_key_fs env) (connection ?cfg)
            (log (Invoke MConnect) (new_SSHDeployer fresh)) = (rc, s1)"
          by (cases "connect P (env_key_fs env) (connection ?cfg)
            (log (Invoke MConnect) (new_SSHDeployer fresh))")
        show ?thesis
        proof (cases rc)
          case (Inl e)
          then show ?thesis
            using assms Inr valid scan nonempty c by (auto simp: deploy_try_def Let_def)
        next
          case cok: (Inr u)
          obtain rt s2 where t: "transfer P env ?cfg options files (getRemoteDirectories files) s1
              = (rt, s2)"
            by (cases "transfer P env ?cfg options files (getRemoteDirectories files) s1")
          show ?thesis
          proof (cases rt)
            case (Inl e)
            then show ?thesis
              using assms Inr valid scan nonempty c cok t by (auto simp: deploy_try_def Let_def)
          next
            case tok: (Inr v)
            have "ends_disconnected P s2" using t tok transfer_ends by blast
            then show ?thesis
              using assms Inr valid scan nonempty c cok t tok
              by (auto simp: deploy_try_def Let_def)
          qed
        qed
      qed
    qed
  qed
qed


lemma disconnect_not_connected: "\<not> connected (disconnect P s)"
  by (simp add: disconnect_def log_def)

lemma ends_disconnected_not_connected: "ends_disconnected P s \<Longrightarrow> \<not> connected s"
  unfolding ends_disconnected_def using disconnect_not_connected by blast

text \<open>
  Claim C5. In every run of the deploy command that called \<open>connect\<close>, whether a later
  stage failed or all went through, the last thing the command did to its deployer was a
  call of \<open>disconnect\<close>, and the deployer is left not connected; a run that returns is
  such a run. (The two calls of \<^verbatim>\<open>process.exit\<close> inside the \<^verbatim>\<open>try\<close> block come before
  \<open>connect\<close>.)
\<close>

theorem deployCommand_disconnects:
  "(Invoke MConnect \<in> set (trace (snd (deployCommand P env options fresh))) \<longrightarrow>
      (\<exists>s1. snd (deployCommand P env options fresh) = disconnect P (log (Invoke MDisconnect) s1)) \<and>
      \<not> connected (snd (deployCommand P env options fresh))) \<and>
   (fst (deployCommand P env options fresh) = Returned \<longrightarrow>
      (\<exists>s1. snd (deployCommand P env options fresh) = disconnect P (log (Invoke MDisconnect) s1)) \<and>
      \<not> connected (snd (deployCommand P env options fresh)))"
proof -
  obtain res s where run: "deploy_try P env options (new_SSHDeployer fresh) = (res, s)"
    by (cases "deploy_try P env options (new_SSHDeployer fresh)")
  let ?final = "snd (deployCommand P env options fresh)"
  have ends: "ends_disconnected P ?final" if "Invoke MConnect \<in> set (trace ?final) \<or>
      fst (deployCommand P env options fresh) = Returned"
  proof (cases res)
    case (Inl e)
    then show ?thesis using run by (auto simp: deployCommand_def ends_disconnected_def)
  next
    case (Inr ending)
    from deploy_try_cases [OF run] Inr
    have "s = new_SSHDeployer fresh \<and> ending \<noteq> Returned \<or>
        ending = Returned \<and> ends_disconnected P s" by auto
    then show ?thesis
    proof
      assume "s = new_SSHDeployer fresh \<and> ending \<noteq> Returned"
      then show ?thesis using that run Inr by (auto simp: deployCommand_def new_trace)
    next
      assume "ending = Returned \<and> ends_disconnected P s"
      then show ?thesis using run Inr by (simp add: deployCommand_def)
    qed
  qed
  show ?thesis
    using ends ends_disconnected_not_connected [of P ?final]
    unfolding ends_disconnected_def by blast
qed

theorem deployCommand_disconnects_witness:
  "Invoke MConnect \<in> set (trace (snd (deployCommand faulty_host example_env example_options ()))) \<and>
   fst (deployCommand faulty_host example_env example_options ()) = Exit 1 \<and>
   \<not> connected (snd (deployCommand faulty_host example_env example_options ())) \<and>
   puts_of (trace (snd (deployCommand faulty_host example_env example_options ()))) =
     [(''/w/src/index.js'', ''/srv/app/src/index.js''), (''/w/deploy.sh'', ''/srv/app/deploy.sh'')] \<and>
   last (trace (snd (deployCommand faulty_host example_env example_options ()))) = Disposed \<and>
   fst (deployCommand steady_host example_env example_options ()) = Returned \<and>
   \<not> connected (snd (deployCommand steady_host example_env example_options ())) \<and>
   last (trace (snd (deployCommand steady_host example_env example_options ()))) = Disposed"
proof -
  note defs = deployCommand_def deploy_try_def transfer_def run_script_def
    example_env_def example_options_def example_connection_def example_fs_def
    example_tree_def example_rules_def quiet_def
    or_else_def mergeWithCliOptions_def validateConfig_def
    path_join_def path_relative_def to_forward_slashes_def pattern_matches_def RegExp_def
    replace_stars_def syntax_character_def line_terminator_def
    getRemoteDirectories_def dirname_def set_add_def depth_def
    connect_def open_session_def disconnect_def new_SSHDeployer_def log_def
    getServerInfo_def executeScript_def createDirectories_def uploadFiles_def exec_def put_def
    mkdir_p_def quoted_def os_release_command_def Let_def
  have f1: "fst (deployCommand faulty_host example_env example_options ()) = Exit 1"
    and f2: "Invoke MConnect \<in>
      set (trace (snd (deployCommand faulty_host example_env example_options ())))"
    and f3: "puts_of (trace (snd (deployCommand faulty_host example_env example_options ()))) =
     [(''/w/src/index.js'', ''/srv/app/src/index.js''), (''/w/deploy.sh'', ''/srv/app/deploy.sh'')]"
    and f4: "last (trace (snd (deployCommand faulty_host example_env example_options ()))) = Disposed"
    by (simp_all add: defs faulty_host_def)
  have s1: "fst (deployCommand steady_host example_env example_options ()) = Returned"
    and s2: "last (trace (snd (deployCommand steady_host example_env example_options ()))) = Disposed"
    by (simp_all add: defs steady_host_def)
  have "\<not> connected (snd (deployCommand faulty_host example_env example_options ()))"
    using deployCommand_disconnects [of faulty_host example_env example_options "()"] f2
    by blast
  moreover have "\<not> connected (snd (deployCommand steady_host example_env example_options ()))"
    using deployCommand_disconnects [of steady_host example_env example_options "()"] s1
    by blast
  ultimately show ?thesis using f1 f2 f3 f4 s1 s2 by simp
qed

end
